theory Spec2Isabelle
  imports Main "HOL-Library.Sublist" "HOL-Library.Char_ord"
begin

section \<open>Python strings\<close>

text \<open>
  A Python \<^verbatim>\<open>str\<close> is modelled as a \<^typ>\<open>string\<close>: a list of characters, each read as a
  code point below 256.  The functions of this section are the \<^verbatim>\<open>str\<close> methods and
  operators that \<^verbatim>\<open>mp3_downloader.py\<close> uses.
\<close>

definition lower_char :: "char \<Rightarrow> char" where
  \<comment> \<open>\<^verbatim>\<open>str.lower\<close> on one code point below 256: A-Z, and the Latin-1 capitals
      0xC0-0xDE except the multiplication sign 0xD7.\<close>
  "lower_char c =
     (let n = (of_char c :: nat) in
      if (65 \<le> n \<and> n \<le> 90) \<or> (192 \<le> n \<and> n \<le> 222 \<and> n \<noteq> 215)
      then char_of (n + 32) else c)"

definition lower :: "string \<Rightarrow> string" where
  "lower s = map lower_char s"

fun startswith :: "'a list \<Rightarrow> 'a list \<Rightarrow> bool" where
  "startswith s [] = True"
| "startswith [] (e # es) = False"
| "startswith (c # cs) (e # es) = (c = e \<and> startswith cs es)"

definition endswith :: "'a list \<Rightarrow> 'a list \<Rightarrow> bool" where
  "endswith s e = startswith (rev s) (rev e)"

fun contains :: "'a list \<Rightarrow> 'a list \<Rightarrow> bool" where
  \<comment> \<open>\<^verbatim>\<open>sub in s\<close>\<close>
  "contains sub [] = (sub = [])"
| "contains sub (c # cs) = (startswith (c # cs) sub \<or> contains sub cs)"

definition strip :: "string \<Rightarrow> string \<Rightarrow> string" where
  \<comment> \<open>\<^verbatim>\<open>s.strip(chars)\<close>\<close>
  "strip chars s =
     rev (dropWhile (\<lambda>c. c \<in> set chars) (rev (dropWhile (\<lambda>c. c \<in> set chars) s)))"

definition digit_char :: "nat \<Rightarrow> char" where
  "digit_char d = char_of (48 + d)"

fun str_of_nat :: "nat \<Rightarrow> string" where
  \<comment> \<open>the decimal rendering of a non-negative integer in an f-string\<close>
  "str_of_nat n =
     (if n < 10 then [digit_char n] else str_of_nat (n div 10) @ [digit_char (n mod 10)])"

declare str_of_nat.simps [simp del]

definition is_space :: "char \<Rightarrow> bool" where
  \<comment> \<open>the class \<^verbatim>\<open>\s\<close> of a \<^verbatim>\<open>str\<close> pattern, on code points below 256\<close>
  "is_space c =
     (let n = (of_char c :: nat) in
      (9 \<le> n \<and> n \<le> 13) \<or> (28 \<le> n \<and> n \<le> 32) \<or> n = 133 \<or> n = 160)"

section \<open>Recognising audio URLs and file names\<close>

definition get_filename_match :: "string \<Rightarrow> string option" where
  \<comment> \<open>the pattern \<^verbatim>\<open>filename=(.+)\<close> at the start of \<open>s\<close>: the group is the rest of the
      line, and must not be empty\<close>
  "get_filename_match s =
     (if startswith s ''filename='' then
        (let g = takeWhile (\<lambda>c. c \<noteq> CHR 0x0A) (drop 9 s)
         in if g = [] then None else Some g)
      else None)"

fun findall_filename :: "string \<Rightarrow> string option" where
  \<comment> \<open>the first element of \<^verbatim>\<open>re.findall('filename=(.+)', cd)\<close>, when there is one\<close>
  "findall_filename [] = None"
| "findall_filename (c # cs) =
     (case get_filename_match (c # cs) of
        Some g \<Rightarrow> Some g
      | None \<Rightarrow> findall_filename cs)"

definition get_filename_from_cd :: "string option \<Rightarrow> string option" where
  "get_filename_from_cd cd =
     (case cd of
        None \<Rightarrow> None
      | Some v \<Rightarrow>
          if v = [] then None
          else (case findall_filename v of
                  None \<Rightarrow> None
                | Some g \<Rightarrow> Some (strip [CHR 0x27] (strip [CHR 0x22] g))))"

definition clean_filename :: "string \<Rightarrow> string" where
  "clean_filename filename =
     filter (\<lambda>c. c \<notin> set [CHR 0x5C, CHR ''/'', CHR ''*'', CHR ''?'', CHR '':'', CHR 0x22,
                            CHR '':'', CHR ''<'', CHR ''>'', CHR ''|'']) filename"

definition exts :: "string list" where
  "exts = [''.mp3'', ''.wav'', ''.m4a'', ''.ogg'', ''.flac'', ''.aac'', ''.wma'']"

definition is_audio_url :: "string \<Rightarrow> bool" where
  "is_audio_url url = list_ex (\<lambda>e. endswith (lower url) e) exts"

section \<open>The parsed page\<close>

text \<open>
  \<^verbatim>\<open>BeautifulSoup(html_content, 'html.parser')\<close> is a tree of tags and text.  A tag has
  a name, its attributes (a dictionary from attribute name to value) and its children in
  document order.
\<close>

datatype node =
  Tag (name: string) (attrs: "(string \<times> string) list") (contents: "node list")
| NavigableString string

fun descendants :: "node \<Rightarrow> node list" where
  \<comment> \<open>the tags below a node, in document order\<close>
  "descendants (NavigableString t) = []"
| "descendants (Tag n a cs) = concat (map (\<lambda>c. case c of
       NavigableString t \<Rightarrow> []
     | Tag n' a' cs' \<Rightarrow> c # descendants c) cs)"

definition soup_tags :: "node list \<Rightarrow> node list" where
  \<comment> \<open>every tag of a document whose top-level nodes are \<open>soup\<close>, in document order\<close>
  "soup_tags soup = descendants (Tag ''[document]'' [] soup)"

definition get :: "node \<Rightarrow> string \<Rightarrow> string option" where
  \<comment> \<open>\<^verbatim>\<open>tag.get(key)\<close>\<close>
  "get t key = map_of (attrs t) key"

definition find_all :: "node list \<Rightarrow> string \<Rightarrow> node list" where
  \<comment> \<open>\<^verbatim>\<open>find_all(name)\<close> over the tags \<open>ts\<close> in which it searches\<close>
  "find_all ts nm = filter (\<lambda>t. name t = nm) ts"

definition find_all_with :: "node list \<Rightarrow> string \<Rightarrow> string \<Rightarrow> node list" where
  \<comment> \<open>\<^verbatim>\<open>find_all(name, key=True)\<close>: the tags of that name that have the attribute\<close>
  "find_all_with ts nm key = filter (\<lambda>t. name t = nm \<and> get t key \<noteq> None) ts"

section \<open>The text scan for mp3 links\<close>

definition url_char :: "char \<Rightarrow> bool" where
  \<comment> \<open>the class \<^verbatim>\<open>[^\s"\\]\<close>\<close>
  "url_char c = (\<not> is_space c \<and> c \<noteq> CHR 0x22 \<and> c \<noteq> CHR 0x5C)"

definition longest_mp3_prefix :: "string \<Rightarrow> string option" where
  \<comment> \<open>\<^verbatim>\<open>[^\s"\\]+\.mp3\<close> inside a maximal run of class characters: the repetition is
      greedy, so the match is the longest prefix of the run that ends in \<^verbatim>\<open>.mp3\<close> after at
      least one character\<close>
  "longest_mp3_prefix run =
     find (\<lambda>p. 5 \<le> length p \<and> endswith p ''.mp3'') (rev (prefixes run))"

definition match_mp3_url :: "string \<Rightarrow> string option" where
  \<comment> \<open>the pattern \<^verbatim>\<open>https?://[^\s"\\]+\.mp3\<close> at the start of \<open>s\<close>\<close>
  "match_mp3_url s =
     (if startswith s ''http'' then
        (let s1 = drop 4 s;
             scheme = (if startswith s1 ''s'' then ''https'' else ''http'');
             s2 = (if startswith s1 ''s'' then drop 1 s1 else s1)
         in if startswith s2 ''://'' then
              (case longest_mp3_prefix (takeWhile url_char (drop 3 s2)) of
                 None \<Rightarrow> None
               | Some p \<Rightarrow> Some (scheme @ ''://'' @ p))
            else None)
      else None)"

fun findall_from :: "nat \<Rightarrow> string \<Rightarrow> string list" where
  \<comment> \<open>\<^verbatim>\<open>re.findall\<close> scanning left to right: \<open>skip\<close> characters still belong to the
      last match, and the search resumes after it\<close>
  "findall_from skip [] = []"
| "findall_from (Suc skip) (c # cs) = findall_from skip cs"
| "findall_from 0 (c # cs) =
     (case match_mp3_url (c # cs) of
        None \<Rightarrow> findall_from 0 cs
      | Some m \<Rightarrow> m # findall_from (length m - 1) cs)"

definition findall_mp3 :: "string \<Rightarrow> string list" where
  \<comment> \<open>\<^verbatim>\<open>re.findall(r'https?://[^\s"\\]+\.mp3', html_content)\<close>\<close>
  "findall_mp3 html_content = findall_from 0 html_content"

section \<open>Library functions\<close>

text \<open>
  The functions of \<^verbatim>\<open>bs4\<close>, \<^verbatim>\<open>urllib.parse\<close> and the built-in \<^verbatim>\<open>int\<close> are not part of
  the program: they are parameters of the model.  A result \<open>None\<close> is the library
  function raising (\<^verbatim>\<open>ValueError\<close> for a URL that \<^verbatim>\<open>urlsplit\<close> rejects or a header
  that is no integer literal, \<^verbatim>\<open>ParserRejectedMarkup\<close> for the parser).
\<close>

record lib =
  html_parser :: "string \<Rightarrow> node list option"
  urljoin :: "string \<Rightarrow> string \<Rightarrow> string option"
  urlparse_path :: "string \<Rightarrow> string option"
  unquote :: "string \<Rightarrow> string"
  py_int :: "string \<Rightarrow> int option"

datatype exn =
  OSError | ValueError | ParserRejectedMarkup | RequestException | HTTPError
| AttributeError | KeyError | TypeError

section \<open>Candidate extraction\<close>

definition truthy_value :: "string option \<Rightarrow> string list" where
  \<comment> \<open>\<^verbatim>\<open>if v: candidates.append(v)\<close>, as the list of what is appended\<close>
  "truthy_value v = (case v of None \<Rightarrow> [] | Some s \<Rightarrow> if s \<noteq> [] then [s] else [])"

definition audio_value :: "string option \<Rightarrow> string list" where
  \<comment> \<open>\<^verbatim>\<open>if is_audio_url(v): candidates.append(v)\<close>, as the list of what is appended\<close>
  "audio_value v = (case v of None \<Rightarrow> [] | Some s \<Rightarrow> if is_audio_url s then [s] else [])"

definition audio_candidates :: "node list \<Rightarrow> string list" where
  \<comment> \<open>1. \<^verbatim>\<open><audio>\<close> tags: the tag's own \<^verbatim>\<open>src\<close>, then that of each \<^verbatim>\<open><source>\<close> below it\<close>
  "audio_candidates ts =
     concat (map (\<lambda>audio.
        truthy_value (get audio ''src'') @
        concat (map (\<lambda>source. truthy_value (get source ''src''))
                  (find_all (descendants audio) ''source'')))
      (find_all ts ''audio''))"

definition a_candidates :: "node list \<Rightarrow> string list" where
  \<comment> \<open>2. \<^verbatim>\<open><a>\<close> tags with audio extensions\<close>
  "a_candidates ts =
     concat (map (\<lambda>a. audio_value (get a ''href'')) (find_all_with ts ''a'' ''href''))"

definition source_candidates :: "node list \<Rightarrow> string list" where
  \<comment> \<open>3. \<^verbatim>\<open><source>\<close> tags generic\<close>
  "source_candidates ts =
     concat (map (\<lambda>source. audio_value (get source ''src''))
               (find_all_with ts ''source'' ''src''))"

definition meta_candidates :: "node list \<Rightarrow> string list" where
  \<comment> \<open>4. Meta tags (Open Graph / Twitter)\<close>
  "meta_candidates ts =
     concat (map (\<lambda>meta.
        if get meta ''property'' \<in> set [Some ''og:audio'', Some ''og:audio:url'',
                                          Some ''og:audio:secure_url''] \<or>
           get meta ''name'' \<in> set [Some ''twitter:player:stream'',
                                      Some ''twitter:audio:partner'']
        then truthy_value (get meta ''content'') else [])
      (find_all ts ''meta''))"

definition candidates :: "node list \<Rightarrow> string \<Rightarrow> string list" where
  \<comment> \<open>the list \<^verbatim>\<open>candidates\<close> after the five strategies\<close>
  "candidates soup html_content =
     (let ts = soup_tags soup
      in audio_candidates ts @ a_candidates ts @ source_candidates ts @ meta_candidates ts
         @ findall_mp3 html_content)"

fun resolve :: "lib \<Rightarrow> string \<Rightarrow> string list \<Rightarrow> exn + string list" where
  \<comment> \<open>Resolve relative URLs: an empty candidate is skipped; \<^verbatim>\<open>urljoin\<close> raising ends
      the loop\<close>
  "resolve L base_url [] = Inr []"
| "resolve L base_url (c # cs) =
     (if c = [] then resolve L base_url cs
      else (case urljoin L base_url c of
              None \<Rightarrow> Inl ValueError
            | Some full_url \<Rightarrow>
                (case resolve L base_url cs of
                   Inl e \<Rightarrow> Inl e
                 | Inr resolved \<Rightarrow> Inr (full_url # resolved))))"

fun unique_loop :: "string list \<Rightarrow> string list \<Rightarrow> string set \<Rightarrow> string list" where
  \<comment> \<open>the loop over \<^verbatim>\<open>resolved\<close> that fills \<^verbatim>\<open>unique\<close> and \<^verbatim>\<open>seen\<close>\<close>
  "unique_loop [] unique seen = unique"
| "unique_loop (r # rs) unique seen =
     (if r \<notin> seen then unique_loop rs (unique @ [r]) (insert r seen)
      else unique_loop rs unique seen)"

definition mp3_key :: "string \<Rightarrow> nat" where
  \<comment> \<open>the sort key \<^verbatim>\<open>lambda x: 0 if x.lower().endswith('.mp3') else 1\<close>\<close>
  "mp3_key x = (if endswith (lower x) ''.mp3'' then 0 else 1)"

definition unique_candidates :: "lib \<Rightarrow> string \<Rightarrow> string \<Rightarrow> exn + string list" where
  \<comment> \<open>\<^verbatim>\<open>find_audio_on_page\<close> up to the list \<^verbatim>\<open>unique\<close>, before it is sorted\<close>
  "unique_candidates L html_content base_url =
     (case html_parser L html_content of
        None \<Rightarrow> Inl ParserRejectedMarkup
      | Some soup \<Rightarrow>
          (case resolve L base_url (candidates soup html_content) of
             Inl e \<Rightarrow> Inl e
           | Inr resolved \<Rightarrow> Inr (unique_loop resolved [] {})))"

definition find_audio_on_page :: "lib \<Rightarrow> string \<Rightarrow> string \<Rightarrow> exn + string list" where
  \<comment> \<open>\<^verbatim>\<open>list.sort\<close> is stable, as \<^const>\<open>sort_key\<close> is\<close>
  "find_audio_on_page L html_content base_url =
     (case unique_candidates L html_content base_url of
        Inl e \<Rightarrow> Inl e
      | Inr unique \<Rightarrow> Inr (sort_key mp3_key unique))"

section \<open>The network, the archive and the file system\<close>

text \<open>
  What \<^verbatim>\<open>r.json()\<close> returns: a Python value decoded from JSON.  \<open>JNull\<close> is \<^verbatim>\<open>None\<close>;
  a number is kept as an integer (only whether it is zero is ever looked at); a dictionary
  is the list of its items.
\<close>

datatype json =
  JNull | JBool bool | JNum int | JStr string | JArr "json list"
| JObj "(string \<times> json) list"

fun truthy :: "json \<Rightarrow> bool" where
  "truthy JNull = False"
| "truthy (JBool b) = b"
| "truthy (JNum n) = (n \<noteq> 0)"
| "truthy (JStr s) = (s \<noteq> [])"
| "truthy (JArr xs) = (xs \<noteq> [])"
| "truthy (JObj kvs) = (kvs \<noteq> [])"

fun dict_get :: "json \<Rightarrow> string \<Rightarrow> exn + json" where
  \<comment> \<open>\<^verbatim>\<open>v.get(key)\<close>: only a dictionary has the method\<close>
  "dict_get (JObj kvs) key = Inr (case map_of kvs key of None \<Rightarrow> JNull | Some v \<Rightarrow> v)"
| "dict_get v key = Inl AttributeError"

fun subscript :: "json \<Rightarrow> string \<Rightarrow> exn + json" where
  \<comment> \<open>\<^verbatim>\<open>v[key]\<close> with a \<^verbatim>\<open>str\<close> key\<close>
  "subscript (JObj kvs) key = (case map_of kvs key of None \<Rightarrow> Inl KeyError | Some v \<Rightarrow> Inr v)"
| "subscript v key = Inl TypeError"

text \<open>
  A response of \<^verbatim>\<open>requests.get\<close>.  Header names are held in lower case (the headers are
  a case-insensitive dictionary).  \<open>resp_body\<close> is \<open>None\<close> when reading the body from the
  connection raises (\<^verbatim>\<open>r.text\<close> and \<^verbatim>\<open>r.iter_content\<close> alike); \<open>resp_json\<close> is \<open>None\<close> when
  \<^verbatim>\<open>r.json()\<close> raises.
\<close>

record response =
  status_code :: nat
  resp_headers :: "(string \<times> string) list"
  resp_url :: string
  resp_body :: "string option"
  resp_json :: "json option"

definition headers_get :: "response \<Rightarrow> string \<Rightarrow> string option" where
  "headers_get r key = map_of (resp_headers r) key"

definition raise_for_status :: "response \<Rightarrow> bool" where
  \<comment> \<open>whether \<^verbatim>\<open>r.raise_for_status()\<close> raises: it does for a 4xx or 5xx status\<close>
  "raise_for_status r = (400 \<le> status_code r \<and> status_code r < 600)"

text \<open>
  The events of a run, in order: a directory created, a request sent by
  \<^verbatim>\<open>download_file\<close> (with its \<^verbatim>\<open>referer\<close> argument), a request sent to the archive by
  \<^verbatim>\<open>get_wayback_url\<close>, a file created by \<^verbatim>\<open>open(output_path, 'wb')\<close>.
\<close>

datatype event =
  MakeDirs string | Fetch string "string option" | Lookup string | Create string

text \<open>
  The state: the paths that exist (compared as strings; only this program changes them)
  and the events so far.
\<close>

record state =
  existing :: "string list"
  trace :: "event list"

text \<open>
  The environment answers each call of the outside world.  Its first argument is the
  number of events so far, so that an answer may change from one call to the next.
  \<open>requests_get\<close> is \<open>None\<close> when \<^verbatim>\<open>requests.get\<close> raises; the other three say whether
  \<^verbatim>\<open>os.makedirs\<close>, \<^verbatim>\<open>open(path, 'wb')\<close> and the writes to the open file succeed.
\<close>

record env =
  requests_get :: "nat \<Rightarrow> string \<Rightarrow> (string \<times> string) list \<Rightarrow> response option"
  makedirs_ok :: "nat \<Rightarrow> string \<Rightarrow> bool"
  open_ok :: "nat \<Rightarrow> string \<Rightarrow> bool"
  write_ok :: "nat \<Rightarrow> string \<Rightarrow> bool"

definition log :: "event \<Rightarrow> state \<Rightarrow> state" where
  "log ev s = s\<lparr>trace := trace s @ [ev]\<rparr>"

definition os_path_exists :: "state \<Rightarrow> string \<Rightarrow> bool" where
  "os_path_exists s path = (path \<in> set (existing s))"

section \<open>The archive lookup\<close>

definition wayback_try :: "response option \<Rightarrow> exn + json" where
  \<comment> \<open>the body of the \<^verbatim>\<open>try\<close> of \<^verbatim>\<open>get_wayback_url\<close>, from the answer to its request; the
      function's final \<^verbatim>\<open>return None\<close> is the result \<open>JNull\<close>\<close>
  "wayback_try ro =
     (case ro of
        None \<Rightarrow> Inl RequestException
      | Some r \<Rightarrow>
          (case resp_json r of
             None \<Rightarrow> Inl ValueError
           | Some data \<Rightarrow>
               (case dict_get data ''archived_snapshots'' of
                  Inl e \<Rightarrow> Inl e
                | Inr snaps \<Rightarrow>
                    if \<not> truthy snaps then Inr JNull
                    else (case dict_get snaps ''closest'' of
                            Inl e \<Rightarrow> Inl e
                          | Inr closest \<Rightarrow>
                              if \<not> truthy closest then Inr JNull
                              else (case subscript data ''archived_snapshots'' of
                                      Inl e \<Rightarrow> Inl e
                                    | Inr d1 \<Rightarrow>
                                        (case subscript d1 ''closest'' of
                                           Inl e \<Rightarrow> Inl e
                                         | Inr d2 \<Rightarrow> subscript d2 ''url''))))))"

definition api_url :: "string \<Rightarrow> string" where
  "api_url url = ''http://archive.org/wayback/available?url='' @ url"

definition get_wayback_url :: "env \<Rightarrow> string \<Rightarrow> state \<Rightarrow> json \<times> state" where
  \<comment> \<open>\<^verbatim>\<open>except Exception\<close> turns every exception of the \<^verbatim>\<open>try\<close> into \<^verbatim>\<open>None\<close>\<close>
  "get_wayback_url E url s =
     (case wayback_try (requests_get E (length (trace s)) (api_url url) []) of
        Inl e \<Rightarrow> (JNull, log (Lookup url) s)
      | Inr v \<Rightarrow> (v, log (Lookup url) s))"

section \<open>Paths\<close>

text \<open>The functions of \<^verbatim>\<open>os.path\<close>, in their POSIX form.\<close>

definition os_path_basename :: "string \<Rightarrow> string" where
  "os_path_basename p = rev (takeWhile (\<lambda>c. c \<noteq> CHR ''/'') (rev p))"

definition os_path_join :: "string \<Rightarrow> string \<Rightarrow> string" where
  "os_path_join a b =
     (if startswith b ''/'' then b
      else if a = [] \<or> endswith a ''/'' then a @ b
      else a @ ''/'' @ b)"

definition os_path_splitext :: "string \<Rightarrow> string \<times> string" where
  \<comment> \<open>the extension starts at the last dot of the last component, unless only dots come
      before it there\<close>
  "os_path_splitext p =
     (let nm = os_path_basename p;
          ext = CHR ''.'' # rev (takeWhile (\<lambda>c. c \<noteq> CHR ''.'') (rev nm));
          stem = take (length nm - length ext) nm
      in if CHR ''.'' \<in> set nm \<and> (\<exists>c \<in> set stem. c \<noteq> CHR ''.'')
         then (take (length p - length ext) p, ext)
         else (p, []))"

section \<open>Downloading one URL\<close>

text \<open>
  The three shapes of the triple that \<^verbatim>\<open>download_file\<close> returns:
  \<^verbatim>\<open>(True, output_path, None)\<close>, \<^verbatim>\<open>(False, r.text, r.url)\<close> and \<^verbatim>\<open>(False, None, None)\<close>.
\<close>

datatype outcome = Downloaded string | HtmlPage string string | Failed

definition user_agent :: string where
  "user_agent = ''Mozilla/5.0 (Windows NT 10.0; Win64; x64) AppleWebKit/537.36 (KHTML, like Gecko) Chrome/91.0.4472.124 Safari/537.36''"

definition request_headers :: "string option \<Rightarrow> (string \<times> string) list" where
  "request_headers referer =
     (''User-Agent'', user_agent) #
     (case referer of
        None \<Rightarrow> []
      | Some ref \<Rightarrow> if ref \<noteq> [] then [(''Referer'', ref)] else [])"

definition guess_ext :: "string \<Rightarrow> string" where
  \<comment> \<open>Try to guess from content-type\<close>
  "guess_ext content_type =
     (if contains ''wav'' content_type then ''.wav''
      else if contains ''ogg'' content_type then ''.ogg''
      else ''.mp3'')"

definition url_filename :: "lib \<Rightarrow> response \<Rightarrow> string option" where
  \<comment> \<open>\<^verbatim>\<open>unquote(os.path.basename(urlparse(r.url).path))\<close>; \<open>None\<close> when \<^verbatim>\<open>urlparse\<close> raises\<close>
  "url_filename L r =
     (case urlparse_path L (resp_url r) of
        None \<Rightarrow> None
      | Some path \<Rightarrow> Some (unquote L (os_path_basename path)))"

definition guess_filename :: "lib \<Rightarrow> response \<Rightarrow> string \<Rightarrow> string option" where
  \<comment> \<open>Filename guessing (lines 117 to 127); \<open>None\<close> when \<^verbatim>\<open>urlparse\<close> raises\<close>
  "guess_filename L r content_type =
     (case (case get_filename_from_cd (headers_get r ''content-disposition'') of
              None \<Rightarrow> url_filename L r
            | Some f \<Rightarrow> if f = [] then url_filename L r else Some f) of
        None \<Rightarrow> None
      | Some filename \<Rightarrow>
          Some (if filename = [] \<or> CHR ''.'' \<notin> set filename
                then ''downloaded_audio'' @ guess_ext content_type
                else filename))"

definition numbered :: "string \<Rightarrow> string \<Rightarrow> nat \<Rightarrow> string" where
  \<comment> \<open>\<^verbatim>\<open>f"{base}_{counter}{ext}"\<close>\<close>
  "numbered base ext counter = base @ ''_'' @ str_of_nat counter @ ext"

function handle_duplicates ::
  "string list \<Rightarrow> string \<Rightarrow> string \<Rightarrow> string \<Rightarrow> nat \<Rightarrow> string" where
  \<comment> \<open>the loop \<^verbatim>\<open>while os.path.exists(output_path)\<close>, over the paths that exist\<close>
  "handle_duplicates paths base ext output_path counter =
     (if output_path \<in> set paths
      then handle_duplicates paths base ext (numbered base ext counter) (counter + 1)
      else output_path)"
  by pat_completeness auto
termination
proof (relation "measure (\<lambda>(paths, base, ext, output_path, counter).
         card {k. counter \<le> k \<and> numbered base ext k \<in> set paths}
         + (if output_path \<in> set paths then 1 else 0))")
  show "wf (measure (\<lambda>(paths, base, ext, output_path, counter).
         card {k. counter \<le> k \<and> numbered base ext k \<in> set paths}
         + (if output_path \<in> set paths then 1 else 0)))"
    by simp
next
  fix paths :: "string list" and base ext output_path :: string and counter :: nat
  assume "output_path \<in> set paths"
  have val: "foldl (\<lambda>a c. 10 * a + (of_char c - 48)) 0 (str_of_nat n) = n" for n :: nat
  proof (induction n rule: str_of_nat.induct)
    case (1 n)
    show ?case
    proof (cases "n < 10")
      case True
      then show ?thesis by (simp add: str_of_nat.simps [of n] digit_char_def)
    next
      case False
      have "n mod 10 < 10" by simp
      then have "(48 + n mod 10) mod 256 = 48 + n mod 10" by simp
      with False "1" show ?thesis
        by (simp add: str_of_nat.simps [of n] digit_char_def)
    qed
  qed
  have "inj str_of_nat"
    by (rule inj_on_inverseI [where g = "foldl (\<lambda>a c. 10 * a + (of_char c - 48)) 0"])
       (rule val)
  then have "inj (numbered base ext)"
    by (auto simp: inj_on_def numbered_def)
  then have fin: "finite {k. numbered base ext k \<in> set paths}"
    using finite_vimageI [of "set paths" "numbered base ext"] by (simp add: vimage_def)
  let ?A = "{k. counter \<le> k \<and> numbered base ext k \<in> set paths}"
  let ?B = "{k. counter + 1 \<le> k \<and> numbered base ext k \<in> set paths}"
  have finA: "finite ?A" using fin by (rule rev_finite_subset) auto
  have "card ?B + (if numbered base ext counter \<in> set paths then 1 else 0) = card ?A"
  proof (cases "numbered base ext counter \<in> set paths")
    case True
    have "?A = insert counter ?B" using True by (auto simp: le_less Suc_le_eq)
    moreover have "counter \<notin> ?B" by simp
    moreover have "finite ?B" using fin by (rule rev_finite_subset) auto
    ultimately show ?thesis using True by simp
  next
    case False
    have "?A = ?B"
    proof (rule set_eqI)
      fix k
      show "k \<in> ?A \<longleftrightarrow> k \<in> ?B"
        using False by (cases "k = counter") auto
    qed
    then show ?thesis using False by simp
  qed
  then show "((paths, base, ext, numbered base ext counter, counter + 1),
              (paths, base, ext, output_path, counter))
             \<in> measure (\<lambda>(paths, base, ext, output_path, counter).
                 card {k. counter \<le> k \<and> numbered base ext k \<in> set paths}
                 + (if output_path \<in> set paths then 1 else 0))"
    using \<open>output_path \<in> set paths\<close> by simp
qed

declare handle_duplicates.simps [simp del]

definition content_length :: "lib \<Rightarrow> response \<Rightarrow> int option" where
  \<comment> \<open>\<^verbatim>\<open>int(r.headers.get('content-length', 0))\<close>; \<open>None\<close> when \<^verbatim>\<open>int\<close> raises\<close>
  "content_length L r =
     (case headers_get r ''content-length'' of
        None \<Rightarrow> Some 0
      | Some v \<Rightarrow> py_int L v)"

definition save :: "env \<Rightarrow> response \<Rightarrow> string \<Rightarrow> state \<Rightarrow> outcome \<times> state" where
  \<comment> \<open>lines 143 to 153: open the file, which creates it, then write every chunk of the
      body\<close>
  "save E r output_path s =
     (if \<not> open_ok E (length (trace s)) output_path then (Failed, s)
      else (let s' = log (Create output_path) (s\<lparr>existing := output_path # existing s\<rparr>)
            in if resp_body r = None \<or> \<not> write_ok E (length (trace s)) output_path
               then (Failed, s')
               else (Downloaded output_path, s')))"

definition output_path_for :: "state \<Rightarrow> string \<Rightarrow> string \<Rightarrow> string" where
  \<comment> \<open>lines 129 to 137: the sanitized name in the output directory, made unique\<close>
  "output_path_for s output_dir filename =
     (let output_path = os_path_join output_dir (clean_filename filename);
          (base, ext) = os_path_splitext output_path
      in handle_duplicates (existing s) base ext output_path 1)"

definition download_file ::
  "lib \<Rightarrow> env \<Rightarrow> string \<Rightarrow> string \<Rightarrow> string option \<Rightarrow> state \<Rightarrow> outcome \<times> state" where
  \<comment> \<open>every exception raised inside the \<^verbatim>\<open>try\<close> ends in \<^verbatim>\<open>return False, None, None\<close>\<close>
  "download_file L E url output_dir referer s =
     (let s1 = log (Fetch url referer) s in
      case requests_get E (length (trace s)) url (request_headers referer) of
        None \<Rightarrow> (Failed, s1)
      | Some r \<Rightarrow>
          (let content_type = lower (case headers_get r ''content-type'' of
                                       None \<Rightarrow> [] | Some v \<Rightarrow> v)
           in if contains ''text/html'' content_type \<and> \<not> is_audio_url url then
                (case resp_body r of
                   None \<Rightarrow> (Failed, s1)
                 | Some text \<Rightarrow> (HtmlPage text (resp_url r), s1))
              else if raise_for_status r then (Failed, s1)
              else (case guess_filename L r content_type of
                      None \<Rightarrow> (Failed, s1)
                    | Some filename \<Rightarrow>
                        (case content_length L r of
                           None \<Rightarrow> (Failed, s1)
                         | Some total_size \<Rightarrow>
                             save E r (output_path_for s1 output_dir filename) s1))))"

section \<open>Resolving a URL\<close>

definition makedirs_if_missing :: "env \<Rightarrow> string \<Rightarrow> state \<Rightarrow> exn + state" where
  \<comment> \<open>\<^verbatim>\<open>if not os.path.exists(output_dir): os.makedirs(output_dir)\<close>\<close>
  "makedirs_if_missing E output_dir s =
     (if os_path_exists s output_dir then Inr s
      else if makedirs_ok E (length (trace s)) output_dir
      then Inr (log (MakeDirs output_dir) (s\<lparr>existing := output_dir # existing s\<rparr>))
      else Inl OSError)"

fun try_candidates ::
  "lib \<Rightarrow> env \<Rightarrow> string list \<Rightarrow> string \<Rightarrow> string \<Rightarrow> state \<Rightarrow> string option \<times> state" where
  \<comment> \<open>the loop \<^verbatim>\<open>for link in audio_links\<close>: the path of the first download that succeeds\<close>
  "try_candidates L E [] output_dir final_url s = (None, s)"
| "try_candidates L E (link # links) output_dir final_url s =
     (case download_file L E link output_dir (Some final_url) s of
        (Downloaded path, s') \<Rightarrow> (Some path, s')
      | (HtmlPage text u, s') \<Rightarrow> try_candidates L E links output_dir final_url s'
      | (Failed, s') \<Rightarrow> try_candidates L E links output_dir final_url s')"

definition scan_page ::
  "lib \<Rightarrow> env \<Rightarrow> outcome \<Rightarrow> string \<Rightarrow> state \<Rightarrow> (exn + string option) \<times> state" where
  \<comment> \<open>2. If it was HTML, search for links.  An exception of \<^verbatim>\<open>find_audio_on_page\<close> is
      not caught.\<close>
  "scan_page L E oc output_dir s =
     (case oc of
        HtmlPage html_content final_url \<Rightarrow>
          if html_content \<noteq> [] then
            (case find_audio_on_page L html_content final_url of
               Inl e \<Rightarrow> (Inl e, s)
             | Inr audio_links \<Rightarrow>
                 (case try_candidates L E audio_links output_dir final_url s of
                    (res, s') \<Rightarrow> (Inr res, s')))
          else (Inr None, s)
      | Downloaded path \<Rightarrow> (Inr None, s)
      | Failed \<Rightarrow> (Inr None, s))"

definition process_url_not_str :: "env \<Rightarrow> string \<Rightarrow> state \<Rightarrow> (exn + string option) \<times> state" where
  \<comment> \<open>\<^verbatim>\<open>process_url(v, output_dir, try_wayback=False)\<close> for a value \<open>v\<close> that is no \<^verbatim>\<open>str\<close>:
      \<^verbatim>\<open>requests.get\<close> raises on it before any request is sent, there is no page to scan
      and no fallback\<close>
  "process_url_not_str E output_dir s =
     (case makedirs_if_missing E output_dir s of
        Inl e \<Rightarrow> (Inl e, s)
      | Inr s0 \<Rightarrow> (Inr None, s0))"

function process_url ::
  "lib \<Rightarrow> env \<Rightarrow> string \<Rightarrow> string \<Rightarrow> bool \<Rightarrow> state \<Rightarrow> (exn + string option) \<times> state" where
  \<comment> \<open>the result is \<open>Inr (Some path)\<close>, \<open>Inr None\<close> for \<^verbatim>\<open>None\<close>, or \<open>Inl\<close> the exception that
      leaves the function\<close>
  "process_url L E url output_dir try_wayback s =
     (case makedirs_if_missing E output_dir s of
        Inl e \<Rightarrow> (Inl e, s)
      | Inr s0 \<Rightarrow>
          (case download_file L E url output_dir None s0 of
             (Downloaded path, s1) \<Rightarrow> (Inr (Some path), s1)
           | (oc, s1) \<Rightarrow>
               (case scan_page L E oc output_dir s1 of
                  (Inl e, s2) \<Rightarrow> (Inl e, s2)
                | (Inr (Some path), s2) \<Rightarrow> (Inr (Some path), s2)
                | (Inr None, s2) \<Rightarrow>
                    if try_wayback then
                      (case get_wayback_url E url s2 of
                         (wb_url, s3) \<Rightarrow>
                           if truthy wb_url then
                             (case wb_url of
                                JStr w \<Rightarrow> process_url L E w output_dir False s3
                              | _ \<Rightarrow> process_url_not_str E output_dir s3)
                           else (Inr None, s3))
                    else (Inr None, s2))))"
  by pat_completeness auto
termination
  by (relation "measure (\<lambda>(L, E, url, output_dir, try_wayback, s). if try_wayback then 1 else 0)")
     auto

declare process_url.simps [simp del]

definition direct_and_scan ::
  "lib \<Rightarrow> env \<Rightarrow> string \<Rightarrow> string \<Rightarrow> state \<Rightarrow> (exn + string option) \<times> state" where
  \<comment> \<open>steps 1 and 2 of \<^verbatim>\<open>process_url\<close> alone (the directory, the direct download, the scan of
      the page): what \<^const>\<open>process_url\<close> does before its step 3\<close>
  "direct_and_scan L E url output_dir s =
     (case makedirs_if_missing E output_dir s of
        Inl e \<Rightarrow> (Inl e, s)
      | Inr s0 \<Rightarrow>
          (case download_file L E url output_dir None s0 of
             (Downloaded path, s1) \<Rightarrow> (Inr (Some path), s1)
           | (HtmlPage text u, s1) \<Rightarrow> scan_page L E (HtmlPage text u) output_dir s1
           | (Failed, s1) \<Rightarrow> scan_page L E Failed output_dir s1))"

section \<open>The filename rule as the specification words it\<close>

definition dotted :: "string \<Rightarrow> bool" where
  \<comment> \<open>a non-empty name containing a dot\<close>
  "dotted nm = (nm \<noteq> [] \<and> CHR ''.'' \<in> set nm)"

definition spec_filename :: "lib \<Rightarrow> response \<Rightarrow> string \<Rightarrow> string option" where
  \<comment> \<open>The specification's derivation order, in its words: the first rule that yields a
      non-empty, dotted name wins; rule 1 is the Content-Disposition filename, rule 2 the
      last path segment of the final URL, rule 3 the synthesized name.  \<open>None\<close> when rule 2
      is reached and \<^verbatim>\<open>urlparse\<close> raises.\<close>
  "spec_filename L r content_type =
     (let rule2 = (case url_filename L r of
                     None \<Rightarrow> None
                   | Some u \<Rightarrow>
                       Some (if dotted u then u
                             else ''downloaded_audio'' @ guess_ext content_type))
      in case get_filename_from_cd (headers_get r ''content-disposition'') of
           None \<Rightarrow> rule2
         | Some f \<Rightarrow> if dotted f then Some f else rule2)"

section \<open>What the archive answer holds\<close>

fun field :: "json \<Rightarrow> string \<Rightarrow> json option" where
  \<comment> \<open>the member \<open>key\<close> of a JSON object, when the value is an object that has it\<close>
  "field (JObj kvs) key = map_of kvs key"
| "field v key = None"

definition snapshot_url_field :: "response option \<Rightarrow> json option" where
  \<comment> \<open>the field \<^verbatim>\<open>archived_snapshots.closest.url\<close> of the answer, when the request did not
      raise, the body is JSON and the field is present\<close>
  "snapshot_url_field ro =
     (case ro of
        None \<Rightarrow> None
      | Some r \<Rightarrow>
          (case resp_json r of
             None \<Rightarrow> None
           | Some data \<Rightarrow>
               (case field data ''archived_snapshots'' of
                  None \<Rightarrow> None
                | Some snaps \<Rightarrow>
                    (case field snaps ''closest'' of
                       None \<Rightarrow> None
                     | Some closest \<Rightarrow> field closest ''url''))))"

section \<open>Counting the events of a run\<close>

fun is_lookup :: "event \<Rightarrow> bool" where
  "is_lookup (Lookup u) = True"
| "is_lookup ev = False"

fun is_direct_fetch :: "event \<Rightarrow> bool" where
  \<comment> \<open>the request of \<^verbatim>\<open>download_file(url, output_dir)\<close>, the first step of \<^verbatim>\<open>process_url\<close>\<close>
  "is_direct_fetch (Fetch u None) = True"
| "is_direct_fetch ev = False"

definition lookups :: "state \<Rightarrow> nat" where
  "lookups s = length (filter is_lookup (trace s))"

definition direct_fetches :: "state \<Rightarrow> nat" where
  "direct_fetches s = length (filter is_direct_fetch (trace s))"

section \<open>A small web for the worked examples\<close>

text \<open>
  The pages, the library functions and the environment of the examples below.  The
  library functions are given on the inputs the examples use: the parse trees of four
  pages; \<^verbatim>\<open>urljoin\<close> for a reference that is an absolute URL or a single path segment;
  the path of a URL of the form \<^verbatim>\<open>scheme://host/path\<close>; \<^verbatim>\<open>unquote\<close> where nothing is
  escaped; \<^verbatim>\<open>int\<close> on decimal digits.
\<close>

definition page_ab :: string where
  \<open>page_ab = ''<a href="b.mp3"></a><audio src="a.wav"></audio>''\<close>

definition soup_ab :: "node list" where
  "soup_ab = [Tag ''a'' [(''href'', ''b.mp3'')] [], Tag ''audio'' [(''src'', ''a.wav'')] []]"

definition page_dup :: string where
  \<open>page_dup = ''<audio><source src="x.mp3"></audio><a href="x.mp3">x</a>''\<close>

definition soup_dup :: "node list" where
  "soup_dup = [Tag ''audio'' [] [Tag ''source'' [(''src'', ''x.mp3'')] []],
               Tag ''a'' [(''href'', ''x.mp3'')] [NavigableString ''x'']]"

definition page_gone :: string where
  \<open>page_gone = ''<h1>Not Found</h1><a href="song.mp3">moved</a>''\<close>

definition soup_gone :: "node list" where
  "soup_gone = [Tag ''h1'' [] [NavigableString ''Not Found''],
                Tag ''a'' [(''href'', ''song.mp3'')] [NavigableString ''moved'']]"

definition page_empty :: string where
  "page_empty = ''<p>no audio here</p>''"

definition soup_empty :: "node list" where
  "soup_empty = [Tag ''p'' [] [NavigableString ''no audio here'']]"

definition example_lib :: lib where
  "example_lib = \<lparr>
     html_parser = map_of [(page_ab, soup_ab), (page_dup, soup_dup), (page_gone, soup_gone),
                           (page_empty, soup_empty)],
     urljoin = (\<lambda>base ref.
        Some (if contains ''://'' ref then ref
              else rev (dropWhile (\<lambda>c. c \<noteq> CHR ''/'') (rev base)) @ ref)),
     urlparse_path = (\<lambda>u.
        Some (dropWhile (\<lambda>c. c \<noteq> CHR ''/'') (drop 2 (dropWhile (\<lambda>c. c \<noteq> CHR ''/'') u)))),
     unquote = (\<lambda>p. p),
     py_int = (\<lambda>v. if v \<noteq> [] \<and> list_all (\<lambda>c. CHR ''0'' \<le> c \<and> c \<le> CHR ''9'') v
                     then Some (int (foldl (\<lambda>a c. 10 * a + (of_char c - 48)) 0 v))
                     else None) \<rparr>"

definition audio_response :: "nat \<Rightarrow> string \<Rightarrow> response" where
  "audio_response code u = \<lparr> status_code = code,
     resp_headers = [(''content-type'', ''audio/mpeg''), (''content-length'', ''3'')],
     resp_url = u, resp_body = Some ''ID3'', resp_json = None \<rparr>"

definition html_response :: "nat \<Rightarrow> string \<Rightarrow> string \<Rightarrow> response" where
  "html_response code u page = \<lparr> status_code = code,
     resp_headers = [(''content-type'', ''text/html; charset=utf-8'')],
     resp_url = u, resp_body = Some page, resp_json = None \<rparr>"

definition json_response :: "string \<Rightarrow> json \<Rightarrow> response" where
  "json_response u v = \<lparr> status_code = 200,
     resp_headers = [(''content-type'', ''application/json'')],
     resp_url = u, resp_body = Some [], resp_json = Some v \<rparr>"

definition cd_quoted :: string where
  \<open>cd_quoted = ''attachment; filename="clip.mp3"''\<close>

definition attachment_response :: "string \<Rightarrow> string \<Rightarrow> response" where
  "attachment_response cd u = \<lparr> status_code = 200,
     resp_headers = [(''content-type'', ''audio/mpeg''), (''content-disposition'', cd)],
     resp_url = u, resp_body = Some ''ID3'', resp_json = None \<rparr>"

definition unreadable_response :: "nat \<Rightarrow> string \<Rightarrow> response" where
  \<comment> \<open>a page whose body cannot be read from the connection\<close>
  "unreadable_response code u = \<lparr> status_code = code,
     resp_headers = [(''content-type'', ''text/html; charset=utf-8'')],
     resp_url = u, resp_body = None, resp_json = None \<rparr>"

definition snapshot :: "string \<Rightarrow> json" where
  "snapshot u = JObj [(''archived_snapshots'',
     JObj [(''closest'', JObj [(''available'', JBool True), (''url'', JStr u)])])]"

definition example_web :: "string \<Rightarrow> response option" where
  "example_web = map_of [
     (''http://h/clip.mp3'', audio_response 200 ''http://h/clip.mp3''),
     (''http://h/song.mp3'', audio_response 200 ''http://h/song.mp3''),
     (''http://h/choice'', audio_response 300 ''http://h/choice.mp3''),
     (''http://h/get?id=1'',
        attachment_response ''attachment; filename=clip'' ''http://h/song.mp3''),
     (''http://h/get?id=2'', attachment_response cd_quoted ''http://h/song.mp3''),
     (''http://h/gone'', html_response 404 ''http://h/gone'' page_gone),
     (''http://h/missing.mp3'', html_response 404 ''http://h/missing.mp3'' page_gone),
     (''http://h/broken'', unreadable_response 404 ''http://h/broken''),
     (''http://h/dead'', html_response 200 ''http://h/dead'' page_empty),
     (''http://a/1/http://h/dead'', html_response 200 ''http://a/1/http://h/dead'' page_empty),
     (api_url ''http://h/dead'', json_response (api_url ''http://h/dead'') (snapshot ''http://a/1/http://h/dead'')),
     (api_url ''http://a/1/http://h/dead'', json_response (api_url ''http://a/1/http://h/dead'') (snapshot ''http://a/2/http://h/dead'')),
     (api_url ''http://h/clip.mp3'', json_response (api_url ''http://h/clip.mp3'') (JObj [(''archived_snapshots'', JObj [])]))]"

definition example_env :: env where
  "example_env = \<lparr> requests_get = (\<lambda>n u hdrs. example_web u), makedirs_ok = (\<lambda>n p. True),
     open_ok = (\<lambda>n p. True), write_ok = (\<lambda>n p. True) \<rparr>"

definition readonly_env :: env where
  \<comment> \<open>the same web, with an output directory in which no file can be opened for writing\<close>
  "readonly_env = example_env\<lparr> open_ok := (\<lambda>n p. False) \<rparr>"

definition locked_env :: env where
  \<comment> \<open>the same web, where the output directory cannot be created\<close>
  "locked_env = example_env\<lparr> makedirs_ok := (\<lambda>n p. False) \<rparr>"

definition start :: state where
  "start = \<lparr> existing = [], trace = [] \<rparr>"

section \<open>Strings and lists\<close>

lemma startswith_prefix: "startswith s e = prefix e s"
  by (induction s e rule: startswith.induct) auto

lemma endswith_suffix: "endswith s e = suffix e s"
  by (simp add: endswith_def startswith_prefix suffix_to_prefix)

lemma insort_mp3_front: "mp3_key x = 0 \<Longrightarrow> insort_key mp3_key x ys = x # ys"
  by (cases ys) simp_all

lemma insort_mp3_back:
  "mp3_key x \<noteq> 0 \<Longrightarrow> \<forall>a \<in> set as. mp3_key a = 0 \<Longrightarrow> \<forall>b \<in> set bs. mp3_key b \<noteq> 0
   \<Longrightarrow> insort_key mp3_key x (as @ bs) = as @ x # bs"
proof (induction as)
  case Nil
  then show ?case by (cases bs) (auto simp: mp3_key_def split: if_splits)
next
  case (Cons a as)
  then show ?case by simp
qed

lemma sort_key_mp3:
  "sort_key mp3_key xs = filter (\<lambda>x. mp3_key x = 0) xs @ filter (\<lambda>x. mp3_key x \<noteq> 0) xs"
proof (induction xs)
  case Nil
  then show ?case by simp
next
  case (Cons x xs)
  show ?case
  proof (cases "mp3_key x = 0")
    case True
    then show ?thesis using Cons by (simp add: insort_mp3_front)
  next
    case False
    then show ?thesis using Cons by (simp add: insort_mp3_back)
  qed
qed

lemma remdups_snoc: "remdups (ys @ [r]) = filter (\<lambda>x. x \<noteq> r) (remdups ys) @ [r]"
  by (induction ys) auto

lemma unique_loop_first_occurrence:
  "unique_loop rs u (set u) = u @ rev (remdups (rev (filter (\<lambda>r. r \<notin> set u) rs)))"
proof (induction rs arbitrary: u)
  case Nil
  then show ?case by simp
next
  case (Cons r rs)
  show ?case
  proof (cases "r \<in> set u")
    case True
    then show ?thesis using Cons [of u] by simp
  next
    case False
    have "unique_loop (r # rs) u (set u) = unique_loop rs (u @ [r]) (set (u @ [r]))"
      using False by simp
    also have "\<dots> = (u @ [r]) @ rev (remdups (rev (filter (\<lambda>x. x \<notin> set (u @ [r])) rs)))"
      by (rule Cons)
    also have "\<dots> = u @ rev (remdups (rev (filter (\<lambda>x. x \<notin> set u) (r # rs))))"
      using False
      by (simp add: remdups_snoc remdups_filter [symmetric] rev_filter [symmetric] conj_commute)
    finally show ?thesis .
  qed
qed

lemma unique_loop_eq: "unique_loop rs [] {} = rev (remdups (rev rs))"
  using unique_loop_first_occurrence [of rs "[]"] by simp

section \<open>The candidate list\<close>

lemma sort_key_mp3_partition:
  "sort_key mp3_key xs =
     filter (\<lambda>x. endswith (lower x) ''.mp3'') xs @ filter (\<lambda>x. \<not> endswith (lower x) ''.mp3'') xs"
proof -
  have "(\<lambda>x. mp3_key x = 0) = (\<lambda>x. endswith (lower x) ''.mp3'')"
    by (auto simp: mp3_key_def)
  moreover have "(\<lambda>x. mp3_key x \<noteq> 0) = (\<lambda>x. \<not> endswith (lower x) ''.mp3'')"
    by (auto simp: mp3_key_def)
  ultimately show ?thesis using sort_key_mp3 [of xs] by simp
qed

lemma find_audio_on_page_Inr:
  assumes "find_audio_on_page L html_content base_url = Inr cs"
  shows "\<exists>soup resolved. html_parser L html_content = Some soup
           \<and> resolve L base_url (candidates soup html_content) = Inr resolved
           \<and> cs = sort_key mp3_key (rev (remdups (rev resolved)))"
  using assms
  by (auto simp: find_audio_on_page_def unique_candidates_def unique_loop_eq
           split: option.splits sum.splits)

lemma partition_precedes:
  assumes "cs = filter P u @ filter (\<lambda>x. \<not> P x) u"
    and "i < length cs" and "j < length cs" and "P (cs ! j)" and "\<not> P (cs ! i)"
  shows "j < i"
proof -
  let ?A = "filter P u" and ?B = "filter (\<lambda>x. \<not> P x) u"
  have i: "\<not> i < length ?A"
  proof
    assume "i < length ?A"
    then have "cs ! i = ?A ! i" and "?A ! i \<in> set ?A"
      using assms(1) by (simp_all add: nth_append del: set_filter)
    then have "cs ! i \<in> set ?A" by simp
    then show False using assms(5) by simp
  qed
  have j: "j < length ?A"
  proof (rule ccontr)
    assume "\<not> j < length ?A"
    then have "cs ! j = ?B ! (j - length ?A)" using assms(1) by (simp add: nth_append)
    moreover have "j - length ?A < length ?B" using assms(1,3) \<open>\<not> j < length ?A\<close> by simp
    ultimately have "cs ! j \<in> set ?B" by (metis nth_mem)
    then show False using assms(4) by simp
  qed
  from i j show ?thesis by simp
qed

lemma is_audio_b_mp3: "is_audio_url ''b.mp3''"
  by code_simp

lemma candidates_ab:
  "findall_mp3 html_content = [] \<Longrightarrow>
   soup = [Tag ''a'' [(''href'', ''b.mp3'')] [], Tag ''audio'' [(''src'', ''a.wav'')] []]
   \<or> soup = [Tag ''audio'' [(''src'', ''a.wav'')] [], Tag ''a'' [(''href'', ''b.mp3'')] []] \<Longrightarrow>
   candidates soup html_content = [''a.wav'', ''b.mp3'']"
  by (auto simp: candidates_def soup_tags_def audio_candidates_def a_candidates_def
        source_candidates_def meta_candidates_def find_all_def find_all_with_def get_def
        truthy_value_def audio_value_def is_audio_b_mp3)

text \<open>
  Claim C1.  The list that \<^verbatim>\<open>find_audio_on_page\<close> returns is the stable partition of the
  discovery order: with \<open>resolved\<close> the candidates of strategies 1 to 5 resolved against
  the base URL, in the order found, and \<open>rev (remdups (rev resolved))\<close> its first
  occurrences, the result is the elements ending in \<^verbatim>\<open>.mp3\<close> (case-insensitively) in that
  order, followed by the others in that order; so every element ending in \<^verbatim>\<open>.mp3\<close> stands
  before every element that does not.  For a page whose tags are one
  \<^verbatim>\<open><a href="b.mp3">\<close> and one \<^verbatim>\<open><audio src="a.wav">\<close>, in either order and with no
  absolute mp3 link in its text, the
  result is the resolved \<^verbatim>\<open>b.mp3\<close> and then the resolved \<^verbatim>\<open>a.wav\<close>.
\<close>

theorem find_audio_on_page_mp3_first:
  "(find_audio_on_page L html_content base_url = Inr cs \<longrightarrow>
      (\<exists>soup resolved.
          html_parser L html_content = Some soup
        \<and> resolve L base_url (candidates soup html_content) = Inr resolved
        \<and> cs = filter (\<lambda>x. endswith (lower x) ''.mp3'') (rev (remdups (rev resolved)))
               @ filter (\<lambda>x. \<not> endswith (lower x) ''.mp3'') (rev (remdups (rev resolved))))
      \<and> (\<forall>i j. i < length cs \<and> j < length cs \<and> endswith (lower (cs ! j)) ''.mp3''
               \<and> \<not> endswith (lower (cs ! i)) ''.mp3'' \<longrightarrow> j < i))
   \<and> (html_parser L html_content = Some soup
       \<and> (soup = [Tag ''a'' [(''href'', ''b.mp3'')] [], Tag ''audio'' [(''src'', ''a.wav'')] []]
          \<or> soup = [Tag ''audio'' [(''src'', ''a.wav'')] [], Tag ''a'' [(''href'', ''b.mp3'')] []])
       \<and> findall_mp3 html_content = []
       \<and> urljoin L base_url ''b.mp3'' = Some rb \<and> urljoin L base_url ''a.wav'' = Some ra
       \<and> endswith (lower rb) ''.mp3'' \<and> \<not> endswith (lower ra) ''.mp3''
       \<longrightarrow> find_audio_on_page L html_content base_url = Inr [rb, ra])"
proof (intro conjI impI)
  assume a: "find_audio_on_page L html_content base_url = Inr cs"
  from find_audio_on_page_Inr [OF a] obtain soup resolved where
    sr: "html_parser L html_content = Some soup"
        "resolve L base_url (candidates soup html_content) = Inr resolved"
        "cs = sort_key mp3_key (rev (remdups (rev resolved)))"
    by blast
  let ?u = "rev (remdups (rev resolved))"
  have eq: "cs = filter (\<lambda>x. endswith (lower x) ''.mp3'') ?u
               @ filter (\<lambda>x. \<not> endswith (lower x) ''.mp3'') ?u"
    using sr(3) by (simp only: sort_key_mp3_partition)
  show "\<exists>soup resolved.
          html_parser L html_content = Some soup
        \<and> resolve L base_url (candidates soup html_content) = Inr resolved
        \<and> cs = filter (\<lambda>x. endswith (lower x) ''.mp3'') (rev (remdups (rev resolved)))
               @ filter (\<lambda>x. \<not> endswith (lower x) ''.mp3'') (rev (remdups (rev resolved)))"
    using sr(1,2) eq by blast
  show "\<forall>i j. i < length cs \<and> j < length cs \<and> endswith (lower (cs ! j)) ''.mp3''
               \<and> \<not> endswith (lower (cs ! i)) ''.mp3'' \<longrightarrow> j < i"
    using partition_precedes [OF eq] by blast
next
  assume h: "html_parser L html_content = Some soup
       \<and> (soup = [Tag ''a'' [(''href'', ''b.mp3'')] [], Tag ''audio'' [(''src'', ''a.wav'')] []]
          \<or> soup = [Tag ''audio'' [(''src'', ''a.wav'')] [], Tag ''a'' [(''href'', ''b.mp3'')] []])
       \<and> findall_mp3 html_content = []
       \<and> urljoin L base_url ''b.mp3'' = Some rb \<and> urljoin L base_url ''a.wav'' = Some ra
       \<and> endswith (lower rb) ''.mp3'' \<and> \<not> endswith (lower ra) ''.mp3''"
  then have ne: "ra \<noteq> rb" by auto
  have key: "mp3_key rb = 0" "mp3_key ra = 1" using h by (simp_all add: mp3_key_def)
  have "unique_candidates L html_content base_url = Inr [ra, rb]"
    using h ne candidates_ab [of html_content soup] by (auto simp: unique_candidates_def)
  then show "find_audio_on_page L html_content base_url = Inr [rb, ra]"
    using key by (simp add: find_audio_on_page_def)
qed

theorem find_audio_on_page_mp3_first_witness:
  "find_audio_on_page example_lib page_ab ''http://h/p/''
     = Inr [''http://h/p/b.mp3'', ''http://h/p/a.wav'']
   \<and> resolve example_lib ''http://h/p/'' (candidates soup_ab page_ab)
     = Inr [''http://h/p/a.wav'', ''http://h/p/b.mp3'']"
proof -
  have 1: "html_parser example_lib page_ab
         = Some [Tag ''a'' [(''href'', ''b.mp3'')] [], Tag ''audio'' [(''src'', ''a.wav'')] []]"
    by code_simp
  have 2: "findall_mp3 page_ab = []" by code_simp
  have 3: "urljoin example_lib ''http://h/p/'' ''b.mp3'' = Some ''http://h/p/b.mp3''"
    by code_simp
  have 4: "urljoin example_lib ''http://h/p/'' ''a.wav'' = Some ''http://h/p/a.wav''"
    by code_simp
  have 5: "endswith (lower ''http://h/p/b.mp3'') ''.mp3''" by code_simp
  have 6: "\<not> endswith (lower ''http://h/p/a.wav'') ''.mp3''" by code_simp
  have 7: "resolve example_lib ''http://h/p/'' (candidates soup_ab page_ab)
     = Inr [''http://h/p/a.wav'', ''http://h/p/b.mp3'']" by code_simp
  show ?thesis
    using find_audio_on_page_mp3_first [of example_lib page_ab "''http://h/p/''" "[]"
        "[Tag ''a'' [(''href'', ''b.mp3'')] [], Tag ''audio'' [(''src'', ''a.wav'')] []]"
        "''http://h/p/b.mp3''" "''http://h/p/a.wav''"] 1 2 3 4 5 6 7
    by blast
qed

lemma resolve_Inr:
  "resolve L base_url cs = Inr resolved \<Longrightarrow>
     map Some resolved = map (urljoin L base_url) (filter (\<lambda>c. c \<noteq> []) cs)"
  by (induction cs arbitrary: resolved) (auto split: if_splits option.splits sum.splits)

lemma distinct_count_list_one: "distinct xs \<Longrightarrow> x \<in> set xs \<Longrightarrow> count_list xs x = 1"
  by (induction xs) (auto simp: count_list_0_iff)

text \<open>
  Claim C7.  The list that \<^verbatim>\<open>find_audio_on_page\<close> returns has no two equal elements.  Every
  non-empty candidate is resolved against the base URL with \<^verbatim>\<open>urljoin\<close>; of the resolved
  list the first occurrences are kept, in order, before the sort; the result holds exactly
  the resolved URLs, each of them once, however many strategies found it.
\<close>

theorem find_audio_on_page_unique:
  "find_audio_on_page L html_content base_url = Inr cs \<longrightarrow>
     distinct cs
   \<and> (\<exists>soup resolved.
          html_parser L html_content = Some soup
        \<and> resolve L base_url (candidates soup html_content) = Inr resolved
        \<and> map Some resolved
            = map (urljoin L base_url) (filter (\<lambda>c. c \<noteq> []) (candidates soup html_content))
        \<and> unique_candidates L html_content base_url = Inr (rev (remdups (rev resolved)))
        \<and> set cs = set resolved
        \<and> (\<forall>u. u \<in> set resolved \<longrightarrow> count_list cs u = 1))"
proof
  assume a: "find_audio_on_page L html_content base_url = Inr cs"
  from find_audio_on_page_Inr [OF a] obtain soup resolved where
    sr: "html_parser L html_content = Some soup"
        "resolve L base_url (candidates soup html_content) = Inr resolved"
        "cs = sort_key mp3_key (rev (remdups (rev resolved)))"
    by blast
  have d: "distinct cs" using sr(3) by simp
  have s: "set cs = set resolved" using sr(3) by simp
  have u: "unique_candidates L html_content base_url = Inr (rev (remdups (rev resolved)))"
    using sr(1,2) by (simp add: unique_candidates_def unique_loop_eq)
  have c: "\<forall>u. u \<in> set resolved \<longrightarrow> count_list cs u = 1"
    using d s by (simp add: distinct_count_list_one)
  show "distinct cs
   \<and> (\<exists>soup resolved.
          html_parser L html_content = Some soup
        \<and> resolve L base_url (candidates soup html_content) = Inr resolved
        \<and> map Some resolved
            = map (urljoin L base_url) (filter (\<lambda>c. c \<noteq> []) (candidates soup html_content))
        \<and> unique_candidates L html_content base_url = Inr (rev (remdups (rev resolved)))
        \<and> set cs = set resolved
        \<and> (\<forall>u. u \<in> set resolved \<longrightarrow> count_list cs u = 1))"
    using d sr(1,2) resolve_Inr [OF sr(2)] u s c by blast
qed

theorem find_audio_on_page_unique_witness:
  "find_audio_on_page example_lib page_dup ''http://h/p/x'' = Inr [''http://h/p/x.mp3'']
   \<and> resolve example_lib ''http://h/p/x'' (candidates soup_dup page_dup)
       = Inr [''http://h/p/x.mp3'', ''http://h/p/x.mp3'', ''http://h/p/x.mp3'']
   \<and> distinct [''http://h/p/x.mp3'']
   \<and> count_list [''http://h/p/x.mp3''] ''http://h/p/x.mp3'' = 1"
proof -
  have 1: "find_audio_on_page example_lib page_dup ''http://h/p/x'' = Inr [''http://h/p/x.mp3'']"
    by code_simp
  have 2: "resolve example_lib ''http://h/p/x'' (candidates soup_dup page_dup)
       = Inr [''http://h/p/x.mp3'', ''http://h/p/x.mp3'', ''http://h/p/x.mp3'']"
    by code_simp
  have 3: "html_parser example_lib page_dup = Some soup_dup" by code_simp
  from find_audio_on_page_unique [of example_lib page_dup "''http://h/p/x''" "[''http://h/p/x.mp3'']"] 1
  obtain soup resolved where
    r: "html_parser example_lib page_dup = Some soup"
       "resolve example_lib ''http://h/p/x'' (candidates soup page_dup) = Inr resolved"
       "\<forall>u. u \<in> set resolved \<longrightarrow> count_list [''http://h/p/x.mp3''] u = 1"
       "distinct [''http://h/p/x.mp3'']"
    by blast
  from r(1) 3 have "soup = soup_dup" by simp
  with r(2) 2 have "resolved = [''http://h/p/x.mp3'', ''http://h/p/x.mp3'', ''http://h/p/x.mp3'']"
    by simp
  with r(3) have "count_list [''http://h/p/x.mp3''] ''http://h/p/x.mp3'' = 1"
    by (simp del: count_list.simps)
  with 1 2 r(4) show ?thesis by blast
qed

section \<open>The archive lookup\<close>

lemma field_falsy: "\<not> truthy v \<Longrightarrow> field v key = None"
  by (cases v) auto

lemma dict_get_field:
  "dict_get v key = (case v of JObj kvs \<Rightarrow> Inr (case field v key of None \<Rightarrow> JNull | Some x \<Rightarrow> x)
                      | _ \<Rightarrow> Inl AttributeError)"
  by (cases v) auto

lemma subscript_field:
  "subscript v key = (case field v key of
                        Some x \<Rightarrow> Inr x
                      | None \<Rightarrow> Inl (case v of JObj kvs \<Rightarrow> KeyError | _ \<Rightarrow> TypeError))"
  by (cases v) (auto split: option.splits)

lemma field_not_obj: "(\<And>kvs. v \<noteq> JObj kvs) \<Longrightarrow> field v key = None"
  by (cases v) auto

lemma wayback_try_field:
  "(case wayback_try ro of Inl e \<Rightarrow> JNull | Inr v \<Rightarrow> v)
     = (case snapshot_url_field ro of None \<Rightarrow> JNull | Some v \<Rightarrow> v)"
proof (cases ro)
  case None
  then show ?thesis by (simp add: wayback_try_def snapshot_url_field_def)
next
  case (Some r)
  show ?thesis
  proof (cases "resp_json r")
    case None
    with Some show ?thesis by (simp add: wayback_try_def snapshot_url_field_def)
  next
    case (Some data)
    note data = this
    show ?thesis
    proof (cases "field data ''archived_snapshots''")
      case None
      with \<open>ro = Some r\<close> data show ?thesis
        by (cases data) (simp_all add: wayback_try_def snapshot_url_field_def)
    next
      case (Some snaps)
      note snaps = this
      then obtain kvs where d: "data = JObj kvs" by (cases data) auto
      have g: "dict_get data ''archived_snapshots'' = Inr snaps"
        using snaps d by simp
      have s1: "subscript data ''archived_snapshots'' = Inr snaps"
        using snaps by (simp add: subscript_field)
      show ?thesis
      proof (cases "field snaps ''closest''")
        case None
        with \<open>ro = Some r\<close> data snaps g show ?thesis
          by (cases snaps) (simp_all add: wayback_try_def snapshot_url_field_def)
      next
        case (Some closest)
        note closest = this
        then obtain kvs' where sn: "snaps = JObj kvs'" by (cases snaps) auto
        have t: "truthy snaps" using closest field_falsy by fastforce
        have g2: "dict_get snaps ''closest'' = Inr closest" using closest sn by simp
        have s2: "subscript snaps ''closest'' = Inr closest"
          using closest by (simp add: subscript_field)
        show ?thesis
        proof (cases "truthy closest")
          case False
          with \<open>ro = Some r\<close> data snaps closest g t g2 show ?thesis
            by (simp add: wayback_try_def snapshot_url_field_def field_falsy)
        next
          case True
          with \<open>ro = Some r\<close> data snaps closest g t g2 s1 s2 show ?thesis
            by (simp add: wayback_try_def snapshot_url_field_def subscript_field
                  split: option.splits)
        qed
      qed
    qed
  qed
qed

text \<open>
  Claim C8.  \<^verbatim>\<open>get_wayback_url\<close> always returns: its result is the value of the field
  \<^verbatim>\<open>archived_snapshots.closest.url\<close> of the archive's answer when the field is present, and
  \<^verbatim>\<open>None\<close> in every other case, so a failed request, a body that is no JSON and an answer
  without the field all give \<^verbatim>\<open>None\<close>.
\<close>

theorem get_wayback_url_field:
  "get_wayback_url E url s
     = (case snapshot_url_field (requests_get E (length (trace s)) (api_url url) []) of
          None \<Rightarrow> JNull
        | Some v \<Rightarrow> v,
        log (Lookup url) s)
   \<and> (requests_get E (length (trace s)) (api_url url) [] = None
        \<longrightarrow> fst (get_wayback_url E url s) = JNull)
   \<and> (\<forall>r. requests_get E (length (trace s)) (api_url url) [] = Some r \<and> resp_json r = None
        \<longrightarrow> fst (get_wayback_url E url s) = JNull)
   \<and> (snapshot_url_field (requests_get E (length (trace s)) (api_url url) []) = None
        \<longrightarrow> fst (get_wayback_url E url s) = JNull)
   \<and> (fst (get_wayback_url E url s) \<noteq> JNull
        \<longrightarrow> snapshot_url_field (requests_get E (length (trace s)) (api_url url) [])
            = Some (fst (get_wayback_url E url s)))"
proof -
  let ?ro = "requests_get E (length (trace s)) (api_url url) []"
  have eq: "get_wayback_url E url s
     = (case snapshot_url_field ?ro of None \<Rightarrow> JNull | Some v \<Rightarrow> v, log (Lookup url) s)"
    using wayback_try_field [of ?ro]
    by (simp add: get_wayback_url_def split: sum.splits)
  have "?ro = None \<longrightarrow> snapshot_url_field ?ro = None"
    by (simp add: snapshot_url_field_def)
  moreover have "\<forall>r. ?ro = Some r \<and> resp_json r = None \<longrightarrow> snapshot_url_field ?ro = None"
    by (simp add: snapshot_url_field_def)
  ultimately show ?thesis
    unfolding eq by (auto split: option.splits)
qed

theorem get_wayback_url_field_witness:
  "fst (get_wayback_url example_env ''http://h/dead'' start) = JStr ''http://a/1/http://h/dead''
   \<and> fst (get_wayback_url example_env ''http://h/clip.mp3'' start) = JNull
   \<and> fst (get_wayback_url example_env ''http://h/none'' start) = JNull
   \<and> requests_get example_env (length (trace start)) (api_url ''http://h/none'') [] = None"
proof -
  have 1: "snapshot_url_field
             (requests_get example_env (length (trace start)) (api_url ''http://h/dead'') [])
           = Some (JStr ''http://a/1/http://h/dead'')"
    by code_simp
  have 2: "snapshot_url_field
             (requests_get example_env (length (trace start)) (api_url ''http://h/clip.mp3'') [])
           = None"
    by code_simp
  have 3: "requests_get example_env (length (trace start)) (api_url ''http://h/none'') [] = None"
    by code_simp
  show ?thesis
    using get_wayback_url_field [of example_env "''http://h/dead''" start, THEN conjunct1]
      get_wayback_url_field [of example_env "''http://h/clip.mp3''" start, THEN conjunct1]
      get_wayback_url_field [of example_env "''http://h/none''" start, THEN conjunct1] 1 2 3
    by (simp add: snapshot_url_field_def)
qed

section \<open>The saved file name\<close>

lemma download_file_Downloaded:
  assumes "fst (download_file L E url output_dir referer s) = Downloaded p"
  shows "\<exists>r filename.
           requests_get E (length (trace s)) url (request_headers referer) = Some r
         \<and> guess_filename L r (lower (case headers_get r ''content-type'' of
                                         None \<Rightarrow> [] | Some v \<Rightarrow> v)) = Some filename
         \<and> p = output_path_for (log (Fetch url referer) s) output_dir filename"
  using assms
  by (auto simp: download_file_def Let_def save_def split: option.splits if_splits)

text \<open>
  Claim C2, as amended.  The name under which \<^verbatim>\<open>download_file\<close> saves is derived from the
  name that \<^verbatim>\<open>guess_filename\<close> gives.  That name follows the specification's order of rules
  whenever the Content-Disposition header gives no filename, an empty one or one with a
  dot.  A non-empty Content-Disposition filename without a dot is replaced by the
  synthesized name at once: the last path segment of the URL is not tried.  The synthesized
  extension is \<^verbatim>\<open>.wav\<close> when the content type mentions \<^verbatim>\<open>wav\<close>, else \<^verbatim>\<open>.ogg\<close> when it mentions
  \<^verbatim>\<open>ogg\<close>, else \<^verbatim>\<open>.mp3\<close>.
\<close>

theorem guess_filename_rule:
  "((\<forall>f. get_filename_from_cd (headers_get r ''content-disposition'') = Some f
          \<longrightarrow> f = [] \<or> CHR ''.'' \<in> set f)
      \<longrightarrow> guess_filename L r content_type = spec_filename L r content_type)
   \<and> (\<forall>f. get_filename_from_cd (headers_get r ''content-disposition'') = Some f
          \<and> f \<noteq> [] \<and> CHR ''.'' \<notin> set f
      \<longrightarrow> guess_filename L r content_type
            = Some (''downloaded_audio'' @ guess_ext content_type))
   \<and> guess_ext content_type
       = (if contains ''wav'' content_type then ''.wav''
          else if contains ''ogg'' content_type then ''.ogg'' else ''.mp3'')
   \<and> (fst (download_file L E url output_dir referer s) = Downloaded p
      \<longrightarrow> (\<exists>r' filename.
             requests_get E (length (trace s)) url (request_headers referer) = Some r'
           \<and> guess_filename L r' (lower (case headers_get r' ''content-type'' of
                                           None \<Rightarrow> [] | Some v \<Rightarrow> v)) = Some filename
           \<and> p = output_path_for (log (Fetch url referer) s) output_dir filename))"
proof (intro conjI impI allI)
  assume "\<forall>f. get_filename_from_cd (headers_get r ''content-disposition'') = Some f
          \<longrightarrow> f = [] \<or> CHR ''.'' \<in> set f"
  then show "guess_filename L r content_type = spec_filename L r content_type"
    by (auto simp: guess_filename_def spec_filename_def dotted_def Let_def
             split: option.splits)
next
  fix f
  assume "get_filename_from_cd (headers_get r ''content-disposition'') = Some f
          \<and> f \<noteq> [] \<and> CHR ''.'' \<notin> set f"
  then show "guess_filename L r content_type
            = Some (''downloaded_audio'' @ guess_ext content_type)"
    by (simp add: guess_filename_def)
next
  show "guess_ext content_type
       = (if contains ''wav'' content_type then ''.wav''
          else if contains ''ogg'' content_type then ''.ogg'' else ''.mp3'')"
    by (simp add: guess_ext_def)
next
  assume "fst (download_file L E url output_dir referer s) = Downloaded p"
  then show "\<exists>r' filename.
             requests_get E (length (trace s)) url (request_headers referer) = Some r'
           \<and> guess_filename L r' (lower (case headers_get r' ''content-type'' of
                                           None \<Rightarrow> [] | Some v \<Rightarrow> v)) = Some filename
           \<and> p = output_path_for (log (Fetch url referer) s) output_dir filename"
    by (rule download_file_Downloaded)
qed

theorem guess_filename_rule_witness:
  "guess_filename example_lib (attachment_response cd_quoted ''http://h/song.mp3'') ''audio/mpeg''
     = Some ''clip.mp3''
   \<and> get_filename_from_cd
        (headers_get (attachment_response cd_quoted ''http://h/song.mp3'') ''content-disposition'')
     = Some ''clip.mp3''
   \<and> guess_filename example_lib (audio_response 200 ''http://h/song.mp3'') ''audio/mpeg''
     = Some ''song.mp3''
   \<and> get_filename_from_cd
        (headers_get (audio_response 200 ''http://h/song.mp3'') ''content-disposition'') = None"
proof -
  let ?r = "attachment_response cd_quoted ''http://h/song.mp3''"
  let ?r' = "audio_response 200 ''http://h/song.mp3''"
  have 1: "get_filename_from_cd (headers_get ?r ''content-disposition'') = Some ''clip.mp3''"
    by code_simp
  have 2: "spec_filename example_lib ?r ''audio/mpeg'' = Some ''clip.mp3''"
    by code_simp
  have 3: "get_filename_from_cd (headers_get ?r' ''content-disposition'') = None"
    by code_simp
  have 4: "spec_filename example_lib ?r' ''audio/mpeg'' = Some ''song.mp3''"
    by code_simp
  have "guess_filename example_lib ?r ''audio/mpeg'' = spec_filename example_lib ?r ''audio/mpeg''"
    using guess_filename_rule [of ?r example_lib "''audio/mpeg''", THEN conjunct1] 1 by simp
  moreover have "guess_filename example_lib ?r' ''audio/mpeg''
                   = spec_filename example_lib ?r' ''audio/mpeg''"
    using guess_filename_rule [of ?r' example_lib "''audio/mpeg''", THEN conjunct1] 3 by simp
  ultimately show ?thesis using 1 2 3 4 by simp
qed

theorem spec_filename_counterexample:
  "get_filename_from_cd
      (headers_get (attachment_response ''attachment; filename=clip'' ''http://h/song.mp3'')
         ''content-disposition'') = Some ''clip''
   \<and> url_filename example_lib
        (attachment_response ''attachment; filename=clip'' ''http://h/song.mp3'')
       = Some ''song.mp3''
   \<and> spec_filename example_lib
        (attachment_response ''attachment; filename=clip'' ''http://h/song.mp3'') ''audio/mpeg''
       = Some ''song.mp3''
   \<and> guess_filename example_lib
        (attachment_response ''attachment; filename=clip'' ''http://h/song.mp3'') ''audio/mpeg''
       = Some ''downloaded_audio.mp3''
   \<and> fst (download_file example_lib example_env ''http://h/get?id=1'' ''downloads'' None start)
       = Downloaded ''downloads/downloaded_audio.mp3''"
  by code_simp

section \<open>The path of the saved file\<close>

lemma handle_duplicates_free:
  "handle_duplicates paths base ext output_path counter \<notin> set paths"
  by (induction paths base ext output_path counter rule: handle_duplicates.induct)
     (subst handle_duplicates.simps, simp)

lemma handle_duplicates_keep:
  "output_path \<notin> set paths \<Longrightarrow>
     handle_duplicates paths base ext output_path counter = output_path"
  by (subst handle_duplicates.simps) simp

lemma handle_duplicates_numbered:
  "output_path \<in> set paths \<Longrightarrow>
     \<exists>k\<ge>counter. handle_duplicates paths base ext output_path counter = numbered base ext k
        \<and> (\<forall>j. counter \<le> j \<and> j < k \<longrightarrow> numbered base ext j \<in> set paths)"
proof (induction paths base ext output_path counter rule: handle_duplicates.induct)
  case (1 paths base ext output_path counter)
  have step: "handle_duplicates paths base ext output_path counter
          = handle_duplicates paths base ext (numbered base ext counter) (counter + 1)"
    using "1.prems" by (subst handle_duplicates.simps) simp
  show ?case
  proof (cases "numbered base ext counter \<in> set paths")
    case False
    then have "handle_duplicates paths base ext output_path counter = numbered base ext counter"
      using step by (simp add: handle_duplicates_keep)
    then show ?thesis by auto
  next
    case True
    from "1.IH" [OF "1.prems" True] obtain k where
      k: "counter + 1 \<le> k"
         "handle_duplicates paths base ext (numbered base ext counter) (counter + 1)
            = numbered base ext k"
         "\<forall>j. counter + 1 \<le> j \<and> j < k \<longrightarrow> numbered base ext j \<in> set paths"
      by blast
    have "\<forall>j. counter \<le> j \<and> j < k \<longrightarrow> numbered base ext j \<in> set paths"
    proof (intro allI impI)
      fix j assume "counter \<le> j \<and> j < k"
      then show "numbered base ext j \<in> set paths"
        using True k(3) by (cases "j = counter") auto
    qed
    with k(1,2) step show ?thesis
      by (intro exI [of _ k]) simp
  qed
qed

lemma save_Downloaded:
  "fst (save E r p s) = Downloaded q \<Longrightarrow> q = p \<and> p \<in> set (existing (snd (save E r p s)))"
  by (auto simp: save_def Let_def log_def split: if_splits)

lemma download_file_fresh:
  assumes "fst (download_file L E url output_dir referer s) = Downloaded p"
  shows "p \<notin> set (existing s) \<and> p \<in> set (existing (snd (download_file L E url output_dir referer s)))"
proof -
  from assms obtain r filename where
    d: "download_file L E url output_dir referer s
          = save E r (output_path_for (log (Fetch url referer) s) output_dir filename)
              (log (Fetch url referer) s)"
    by (auto simp: download_file_def Let_def split: option.splits if_splits)
  let ?q = "output_path_for (log (Fetch url referer) s) output_dir filename"
  have "?q \<notin> set (existing s)"
    by (simp add: output_path_for_def Let_def log_def handle_duplicates_free split: prod.splits)
  moreover have "p = ?q \<and> ?q \<in> set (existing (snd (download_file L E url output_dir referer s)))"
    using assms save_Downloaded [of E r ?q "log (Fetch url referer) s" p] unfolding d by simp
  ultimately show ?thesis by simp
qed

lemma clip_paths:
  "os_path_join ''downloads'' (clean_filename ''clip.mp3'') = ''downloads/clip.mp3''"
  "os_path_splitext ''downloads/clip.mp3'' = (''downloads/clip'', ''.mp3'')"
  "numbered ''downloads/clip'' ''.mp3'' (Suc 0) = ''downloads/clip_1.mp3''"
  by code_simp+

text \<open>
  Claim C6.  The path that \<^verbatim>\<open>download_file\<close> writes to is chosen by the loop over
  \<^verbatim>\<open>os.path.exists\<close>: it never exists; it is the sanitized name's path when that is free;
  otherwise it is \<^verbatim>\<open>base_k.ext\<close> for the least \<open>k\<close> from 1 whose path is free, where \<open>base\<close>
  and \<open>ext\<close> split the path at its extension.  So the path of a successful download did not
  exist before the call and exists after it, and in the directory \<^verbatim>\<open>downloads\<close> the name
  \<^verbatim>\<open>clip.mp3\<close> gives \<^verbatim>\<open>downloads/clip.mp3\<close> when that is free and \<^verbatim>\<open>downloads/clip_1.mp3\<close>
  when only the former exists.
\<close>

theorem handle_duplicates_unique_path:
  "handle_duplicates paths base ext output_path 1 \<notin> set paths
   \<and> (output_path \<notin> set paths \<longrightarrow>
        handle_duplicates paths base ext output_path 1 = output_path)
   \<and> (output_path \<in> set paths \<longrightarrow>
        (\<exists>k\<ge>1. handle_duplicates paths base ext output_path 1
                  = base @ ''_'' @ str_of_nat k @ ext
              \<and> (\<forall>j. 1 \<le> j \<and> j < k \<longrightarrow> base @ ''_'' @ str_of_nat j @ ext \<in> set paths)))
   \<and> (fst (download_file L E url output_dir referer s) = Downloaded p \<longrightarrow>
        p \<notin> set (existing s)
      \<and> p \<in> set (existing (snd (download_file L E url output_dir referer s)))
      \<and> (\<exists>filename. p = output_path_for (log (Fetch url referer) s) output_dir filename))
   \<and> output_path_for s output_dir filename
       = handle_duplicates (existing s)
           (fst (os_path_splitext (os_path_join output_dir (clean_filename filename))))
           (snd (os_path_splitext (os_path_join output_dir (clean_filename filename))))
           (os_path_join output_dir (clean_filename filename)) 1
   \<and> (''downloads/clip.mp3'' \<notin> set (existing s) \<longrightarrow>
        output_path_for s ''downloads'' ''clip.mp3'' = ''downloads/clip.mp3'')
   \<and> (''downloads/clip.mp3'' \<in> set (existing s) \<and> ''downloads/clip_1.mp3'' \<notin> set (existing s)
        \<longrightarrow> output_path_for s ''downloads'' ''clip.mp3'' = ''downloads/clip_1.mp3'')"
proof (intro conjI impI)
  show "handle_duplicates paths base ext output_path 1 \<notin> set paths"
    by (rule handle_duplicates_free)
  show "handle_duplicates paths base ext output_path 1 = output_path"
    if "output_path \<notin> set paths"
    using that by (rule handle_duplicates_keep)
  show "\<exists>k\<ge>1. handle_duplicates paths base ext output_path 1
                  = base @ ''_'' @ str_of_nat k @ ext
              \<and> (\<forall>j. 1 \<le> j \<and> j < k \<longrightarrow> base @ ''_'' @ str_of_nat j @ ext \<in> set paths)"
    if "output_path \<in> set paths"
    using handle_duplicates_numbered [OF that, where base = base and ext = ext and counter = 1]
    by (simp add: numbered_def)
  show "p \<notin> set (existing s)"
    and "p \<in> set (existing (snd (download_file L E url output_dir referer s)))"
    and "\<exists>filename. p = output_path_for (log (Fetch url referer) s) output_dir filename"
    if "fst (download_file L E url output_dir referer s) = Downloaded p"
    using download_file_fresh [OF that] download_file_Downloaded [OF that] by blast+
  show "output_path_for s output_dir filename
       = handle_duplicates (existing s)
           (fst (os_path_splitext (os_path_join output_dir (clean_filename filename))))
           (snd (os_path_splitext (os_path_join output_dir (clean_filename filename))))
           (os_path_join output_dir (clean_filename filename)) 1"
    by (simp add: output_path_for_def Let_def split: prod.splits)
  have o: "output_path_for s ''downloads'' ''clip.mp3''
        = handle_duplicates (existing s) ''downloads/clip'' ''.mp3'' ''downloads/clip.mp3'' 1"
    by (simp add: output_path_for_def clip_paths)
  show "output_path_for s ''downloads'' ''clip.mp3'' = ''downloads/clip.mp3''"
    if "''downloads/clip.mp3'' \<notin> set (existing s)"
    using that unfolding o by (rule handle_duplicates_keep)
  show "output_path_for s ''downloads'' ''clip.mp3'' = ''downloads/clip_1.mp3''"
    if "''downloads/clip.mp3'' \<in> set (existing s) \<and> ''downloads/clip_1.mp3'' \<notin> set (existing s)"
  proof -
    have "handle_duplicates (existing s) ''downloads/clip'' ''.mp3'' ''downloads/clip.mp3'' 1
        = handle_duplicates (existing s) ''downloads/clip'' ''.mp3'' ''downloads/clip_1.mp3'' (1 + 1)"
      using that by (subst handle_duplicates.simps) (simp add: clip_paths)
    also have "\<dots> = ''downloads/clip_1.mp3''"
      using that by (simp add: handle_duplicates_keep)
    finally show ?thesis unfolding o .
  qed
qed

theorem handle_duplicates_unique_path_witness:
  "download_file example_lib example_env ''http://h/clip.mp3'' ''downloads'' None start
     = (Downloaded ''downloads/clip.mp3'',
        \<lparr>existing = [''downloads/clip.mp3''],
         trace = [Fetch ''http://h/clip.mp3'' None, Create ''downloads/clip.mp3'']\<rparr>)
   \<and> fst (download_file example_lib example_env ''http://h/clip.mp3'' ''downloads'' None
        \<lparr>existing = [''downloads/clip.mp3''],
         trace = [Fetch ''http://h/clip.mp3'' None, Create ''downloads/clip.mp3'']\<rparr>)
     = Downloaded ''downloads/clip_1.mp3''
   \<and> ''downloads/clip.mp3'' \<notin> set (existing start)
   \<and> output_path_for start ''downloads'' ''clip.mp3'' = ''downloads/clip.mp3''
   \<and> output_path_for \<lparr>existing = [''downloads/clip.mp3''],
         trace = [Fetch ''http://h/clip.mp3'' None, Create ''downloads/clip.mp3'']\<rparr>
        ''downloads'' ''clip.mp3'' = ''downloads/clip_1.mp3''"
proof -
  let ?s = "\<lparr>existing = [''downloads/clip.mp3''],
         trace = [Fetch ''http://h/clip.mp3'' None, Create ''downloads/clip.mp3'']\<rparr>"
  have 1: "download_file example_lib example_env ''http://h/clip.mp3'' ''downloads'' None start
     = (Downloaded ''downloads/clip.mp3'', ?s)"
    by code_simp
  have 2: "fst (download_file example_lib example_env ''http://h/clip.mp3'' ''downloads'' None ?s)
     = Downloaded ''downloads/clip_1.mp3''"
    by code_simp
  have 3: "''downloads/clip.mp3'' \<notin> set (existing start)" by (simp add: start_def)
  have 4: "''downloads/clip.mp3'' \<in> set (existing ?s) \<and> ''downloads/clip_1.mp3'' \<notin> set (existing ?s)"
    by simp
  note t = handle_duplicates_unique_path [of "[]" "[]" "[]" "[]" example_lib example_env "[]" "[]"
      None _ "[]" "[]"]
  have 5: "output_path_for start ''downloads'' ''clip.mp3'' = ''downloads/clip.mp3''"
    using t [of start] 3 by blast
  have 6: "output_path_for ?s ''downloads'' ''clip.mp3'' = ''downloads/clip_1.mp3''"
    using t [of ?s] 4 by blast
  show ?thesis using 1 2 3 5 6 by simp
qed

section \<open>Classifying a response\<close>

lemma is_audio_url_suffix:
  "is_audio_url url
     = (\<exists>e \<in> {''.mp3'', ''.wav'', ''.m4a'', ''.ogg'', ''.flac'', ''.aac'', ''.wma''}.
          \<exists>p. lower url = p @ e)"
  by (simp add: is_audio_url_def exts_def endswith_suffix suffix_def)

lemma download_file_html:
  assumes "requests_get E (length (trace s)) url (request_headers referer) = Some r"
    and "contains ''text/html''
           (lower (case headers_get r ''content-type'' of None \<Rightarrow> [] | Some v \<Rightarrow> v))"
    and "\<not> is_audio_url url"
  shows "download_file L E url output_dir referer s
           = (case resp_body r of
                None \<Rightarrow> (Failed, log (Fetch url referer) s)
              | Some text \<Rightarrow> (HtmlPage text (resp_url r), log (Fetch url referer) s))"
  using assms by (simp add: download_file_def Let_def)

lemma download_file_binary:
  assumes "requests_get E (length (trace s)) url (request_headers referer) = Some r"
    and "\<not> (contains ''text/html''
              (lower (case headers_get r ''content-type'' of None \<Rightarrow> [] | Some v \<Rightarrow> v))
            \<and> \<not> is_audio_url url)"
  shows "download_file L E url output_dir referer s
           = (if raise_for_status r then (Failed, log (Fetch url referer) s)
              else (case guess_filename L r
                      (lower (case headers_get r ''content-type'' of None \<Rightarrow> [] | Some v \<Rightarrow> v)) of
                      None \<Rightarrow> (Failed, log (Fetch url referer) s)
                    | Some filename \<Rightarrow>
                        (case content_length L r of
                           None \<Rightarrow> (Failed, log (Fetch url referer) s)
                         | Some total_size \<Rightarrow>
                             save E r (output_path_for (log (Fetch url referer) s) output_dir filename)
                               (log (Fetch url referer) s))))"
  using assms by (auto simp: download_file_def Let_def)

text \<open>
  Claim C5, as amended.  For a request that \<^verbatim>\<open>requests.get\<close> answers with a response \<open>r\<close>:
  when the lower-cased content type contains \<^verbatim>\<open>text/html\<close> and the requested URL does not
  end, case-insensitively, in one of the seven audio extensions, the outcome is the page
  (the body and the final URL) if the body can be read, and a failure if it cannot; otherwise
  a 4xx or 5xx status (the statuses for which \<^verbatim>\<open>raise_for_status\<close> raises) yields a failure,
  and every other status, 2xx or not, yields the path of the saved file when a file name is
  derived, the Content-Length header is absent or an integer, the file opens and the body
  is read and written; if one of these fails the outcome is a failure.  A request that
  raises yields a failure.
\<close>

theorem download_file_classification:
  "(requests_get E (length (trace s)) url (request_headers referer) = None \<longrightarrow>
      fst (download_file L E url output_dir referer s) = Failed)
   \<and> (requests_get E (length (trace s)) url (request_headers referer) = Some r
        \<and> content_type = lower (case headers_get r ''content-type'' of None \<Rightarrow> [] | Some v \<Rightarrow> v)
        \<and> output_path = output_path_for (log (Fetch url referer) s) output_dir filename
      \<longrightarrow>
        (contains ''text/html'' content_type \<and> \<not> is_audio_url url \<and> resp_body r = Some text
           \<longrightarrow> fst (download_file L E url output_dir referer s) = HtmlPage text (resp_url r))
      \<and> (contains ''text/html'' content_type \<and> \<not> is_audio_url url \<and> resp_body r = None
           \<longrightarrow> fst (download_file L E url output_dir referer s) = Failed)
      \<and> (\<not> (contains ''text/html'' content_type \<and> \<not> is_audio_url url)
           \<and> 400 \<le> status_code r \<and> status_code r < 600
           \<longrightarrow> fst (download_file L E url output_dir referer s) = Failed)
      \<and> (\<not> (contains ''text/html'' content_type \<and> \<not> is_audio_url url)
           \<and> \<not> (400 \<le> status_code r \<and> status_code r < 600)
           \<and> guess_filename L r content_type = Some filename
           \<and> content_length L r \<noteq> None
           \<and> open_ok E (Suc (length (trace s))) output_path
           \<and> resp_body r \<noteq> None
           \<and> write_ok E (Suc (length (trace s))) output_path
           \<longrightarrow> fst (download_file L E url output_dir referer s) = Downloaded output_path)
      \<and> (\<not> (contains ''text/html'' content_type \<and> \<not> is_audio_url url)
           \<and> \<not> (400 \<le> status_code r \<and> status_code r < 600)
           \<and> (guess_filename L r content_type = None
              \<or> content_length L r = None
              \<or> guess_filename L r content_type = Some filename
                 \<and> (\<not> open_ok E (Suc (length (trace s))) output_path
                    \<or> resp_body r = None
                    \<or> \<not> write_ok E (Suc (length (trace s))) output_path))
           \<longrightarrow> fst (download_file L E url output_dir referer s) = Failed))
   \<and> is_audio_url url
       = (\<exists>e \<in> {''.mp3'', ''.wav'', ''.m4a'', ''.ogg'', ''.flac'', ''.aac'', ''.wma''}.
            \<exists>p. lower url = p @ e)"
proof (intro conjI impI)
  show "fst (download_file L E url output_dir referer s) = Failed"
    if "requests_get E (length (trace s)) url (request_headers referer) = None"
    using that by (simp add: download_file_def Let_def)
  show "is_audio_url url
       = (\<exists>e \<in> {''.mp3'', ''.wav'', ''.m4a'', ''.ogg'', ''.flac'', ''.aac'', ''.wma''}.
            \<exists>p. lower url = p @ e)"
    by (rule is_audio_url_suffix)
next
  assume a: "requests_get E (length (trace s)) url (request_headers referer) = Some r
        \<and> content_type = lower (case headers_get r ''content-type'' of None \<Rightarrow> [] | Some v \<Rightarrow> v)
        \<and> output_path = output_path_for (log (Fetch url referer) s) output_dir filename"
  then have r: "requests_get E (length (trace s)) url (request_headers referer) = Some r"
    and ct: "content_type = lower (case headers_get r ''content-type'' of None \<Rightarrow> [] | Some v \<Rightarrow> v)"
    and op: "output_path = output_path_for (log (Fetch url referer) s) output_dir filename"
    by simp_all
  note html = download_file_html [OF r, of L output_dir, folded ct]
  note bin = download_file_binary [OF r, of L output_dir, folded ct]
  show "fst (download_file L E url output_dir referer s) = HtmlPage text (resp_url r)"
    if "contains ''text/html'' content_type \<and> \<not> is_audio_url url \<and> resp_body r = Some text"
    using that html by simp
  show "fst (download_file L E url output_dir referer s) = Failed"
    if "contains ''text/html'' content_type \<and> \<not> is_audio_url url \<and> resp_body r = None"
    using that html by simp
  show "fst (download_file L E url output_dir referer s) = Failed"
    if "\<not> (contains ''text/html'' content_type \<and> \<not> is_audio_url url)
           \<and> 400 \<le> status_code r \<and> status_code r < 600"
    using that bin by (simp add: raise_for_status_def)
  show "fst (download_file L E url output_dir referer s) = Downloaded output_path"
    if "\<not> (contains ''text/html'' content_type \<and> \<not> is_audio_url url)
           \<and> \<not> (400 \<le> status_code r \<and> status_code r < 600)
           \<and> guess_filename L r content_type = Some filename
           \<and> content_length L r \<noteq> None
           \<and> open_ok E (Suc (length (trace s))) output_path
           \<and> resp_body r \<noteq> None
           \<and> write_ok E (Suc (length (trace s))) output_path"
    using that bin op by (auto simp: raise_for_status_def save_def Let_def log_def)
  show "fst (download_file L E url output_dir referer s) = Failed"
    if "\<not> (contains ''text/html'' content_type \<and> \<not> is_audio_url url)
           \<and> \<not> (400 \<le> status_code r \<and> status_code r < 600)
           \<and> (guess_filename L r content_type = None
              \<or> content_length L r = None
              \<or> guess_filename L r content_type = Some filename
                 \<and> (\<not> open_ok E (Suc (length (trace s))) output_path
                    \<or> resp_body r = None
                    \<or> \<not> write_ok E (Suc (length (trace s))) output_path))"
    using that bin op
    by (auto simp: raise_for_status_def save_def Let_def log_def split: option.splits)
qed

theorem download_file_classification_witness:
  "requests_get example_env (length (trace start)) ''http://h/clip.mp3'' (request_headers None)
     = Some (audio_response 200 ''http://h/clip.mp3'')
   \<and> ''audio/mpeg'' = lower (case headers_get (audio_response 200 ''http://h/clip.mp3'')
                                    ''content-type'' of None \<Rightarrow> [] | Some v \<Rightarrow> v)
   \<and> ''downloads/clip.mp3''
       = output_path_for (log (Fetch ''http://h/clip.mp3'' None) start) ''downloads'' ''clip.mp3''
   \<and> \<not> contains ''text/html'' ''audio/mpeg''
   \<and> status_code (audio_response 200 ''http://h/clip.mp3'') = 200
   \<and> guess_filename example_lib (audio_response 200 ''http://h/clip.mp3'') ''audio/mpeg''
       = Some ''clip.mp3''
   \<and> content_length example_lib (audio_response 200 ''http://h/clip.mp3'') = Some 3
   \<and> open_ok example_env (Suc (length (trace start))) ''downloads/clip.mp3''
   \<and> resp_body (audio_response 200 ''http://h/clip.mp3'') = Some ''ID3''
   \<and> write_ok example_env (Suc (length (trace start))) ''downloads/clip.mp3''
   \<and> fst (download_file example_lib example_env ''http://h/clip.mp3'' ''downloads'' None start)
       = Downloaded ''downloads/clip.mp3''"
proof -
  let ?r = "audio_response 200 ''http://h/clip.mp3''"
  have 1: "requests_get example_env (length (trace start)) ''http://h/clip.mp3''
             (request_headers None) = Some ?r"
    by code_simp
  have 2: "''audio/mpeg'' = lower (case headers_get ?r ''content-type'' of
                                     None \<Rightarrow> [] | Some v \<Rightarrow> v)"
    by code_simp
  have 3: "''downloads/clip.mp3''
       = output_path_for (log (Fetch ''http://h/clip.mp3'' None) start) ''downloads'' ''clip.mp3''"
    by code_simp
  have 4: "\<not> contains ''text/html'' ''audio/mpeg''" by code_simp
  have 5: "status_code ?r = 200" by (simp add: audio_response_def)
  have 6: "guess_filename example_lib ?r ''audio/mpeg'' = Some ''clip.mp3''" by code_simp
  have 7: "content_length example_lib ?r = Some 3" by code_simp
  have 8: "open_ok example_env (Suc (length (trace start))) ''downloads/clip.mp3''"
    by (simp add: example_env_def)
  have 9: "resp_body ?r = Some ''ID3''" by (simp add: audio_response_def)
  have 10: "write_ok example_env (Suc (length (trace start))) ''downloads/clip.mp3''"
    by (simp add: example_env_def)
  have "fst (download_file example_lib example_env ''http://h/clip.mp3'' ''downloads'' None start)
       = Downloaded ''downloads/clip.mp3''"
    using download_file_classification [of example_env start "''http://h/clip.mp3''" None
        example_lib "''downloads''" ?r "''audio/mpeg''" "''downloads/clip.mp3''" "''clip.mp3''"]
      1 2 3 4 5 6 7 8 9 10
    by simp
  with 1 2 3 4 5 6 7 8 9 10 show ?thesis by blast
qed

theorem download_file_non_2xx_counterexample:
  "requests_get example_env (length (trace start)) ''http://h/choice'' (request_headers None)
     = Some (audio_response 300 ''http://h/choice.mp3'')
   \<and> status_code (audio_response 300 ''http://h/choice.mp3'') = 300
   \<and> headers_get (audio_response 300 ''http://h/choice.mp3'') ''content-type''
       = Some ''audio/mpeg''
   \<and> \<not> contains ''text/html'' (lower ''audio/mpeg'')
   \<and> download_file example_lib example_env ''http://h/choice'' ''downloads'' None start
       = (Downloaded ''downloads/choice.mp3'',
          \<lparr>existing = [''downloads/choice.mp3''],
           trace = [Fetch ''http://h/choice'' None, Create ''downloads/choice.mp3'']\<rparr>)"
  by code_simp

lemma process_url_scan:
  assumes "makedirs_if_missing E output_dir s = Inr s0"
    and "download_file L E url output_dir None s0 = (HtmlPage text final_url, s1)"
    and "text \<noteq> []"
    and "find_audio_on_page L text final_url = Inr links"
    and "try_candidates L E links output_dir final_url s1 = (Some p, s2)"
  shows "process_url L E url output_dir try_wayback s = (Inr (Some p), s2)"
  using assms by (subst process_url.simps) (simp add: scan_page_def)

text \<open>
  Claim C9, as amended.  \<^verbatim>\<open>download_file\<close> decides whether the response is a page before it
  checks the status.  A response whose lower-cased content type contains \<^verbatim>\<open>text/html\<close>, for
  a URL without an audio extension, is returned as the page (its body and final URL) when
  its body can be read, whatever its status code is, a 4xx or 5xx status such as 404
  included; \<^verbatim>\<open>process_url\<close> then scans a non-empty body and tries the candidates found.
  When the body cannot be read the outcome is a failure.  The status decides only on the
  other path: there a 4xx or 5xx status, for which \<^verbatim>\<open>raise_for_status\<close> raises, yields a
  failure, the same response that on the page path is returned as a page.
\<close>

theorem download_file_page_before_status:
  "requests_get E (length (trace s)) url (request_headers referer) = Some r
   \<and> content_type = lower (case headers_get r ''content-type'' of None \<Rightarrow> [] | Some v \<Rightarrow> v)
   \<longrightarrow>
     (contains ''text/html'' content_type \<and> \<not> is_audio_url url \<and> resp_body r = Some text
        \<longrightarrow> download_file L E url output_dir referer s
              = (HtmlPage text (resp_url r), log (Fetch url referer) s)
          \<and> fst (download_file L E url output_dir referer s) \<noteq> Failed
          \<and> (referer = None \<and> makedirs_if_missing E output_dir s' = Inr s \<and> text \<noteq> []
               \<and> find_audio_on_page L text (resp_url r) = Inr links
               \<and> try_candidates L E links output_dir (resp_url r) (log (Fetch url None) s)
                   = (Some p, s'')
             \<longrightarrow> process_url L E url output_dir try_wayback s' = (Inr (Some p), s'')))
   \<and> (contains ''text/html'' content_type \<and> \<not> is_audio_url url \<and> resp_body r = Some text
        \<and> 400 \<le> status_code r \<and> status_code r < 600
        \<longrightarrow> fst (download_file L E url output_dir referer s) = HtmlPage text (resp_url r))
   \<and> (contains ''text/html'' content_type \<and> \<not> is_audio_url url \<and> resp_body r = None
        \<longrightarrow> fst (download_file L E url output_dir referer s) = Failed)
   \<and> (\<not> (contains ''text/html'' content_type \<and> \<not> is_audio_url url)
        \<and> 400 \<le> status_code r \<and> status_code r < 600
        \<longrightarrow> download_file L E url output_dir referer s = (Failed, log (Fetch url referer) s))"
proof (intro impI)
  assume a: "requests_get E (length (trace s)) url (request_headers referer) = Some r
   \<and> content_type = lower (case headers_get r ''content-type'' of None \<Rightarrow> [] | Some v \<Rightarrow> v)"
  then have r: "requests_get E (length (trace s)) url (request_headers referer) = Some r"
    and ct: "content_type = lower (case headers_get r ''content-type'' of None \<Rightarrow> [] | Some v \<Rightarrow> v)"
    by simp_all
  note html = download_file_html [OF r, of L output_dir, folded ct]
  note bin = download_file_binary [OF r, of L output_dir, folded ct]
  have 1: "download_file L E url output_dir referer s
              = (HtmlPage text (resp_url r), log (Fetch url referer) s)
          \<and> fst (download_file L E url output_dir referer s) \<noteq> Failed
          \<and> (referer = None \<and> makedirs_if_missing E output_dir s' = Inr s \<and> text \<noteq> []
               \<and> find_audio_on_page L text (resp_url r) = Inr links
               \<and> try_candidates L E links output_dir (resp_url r) (log (Fetch url None) s)
                   = (Some p, s'')
             \<longrightarrow> process_url L E url output_dir try_wayback s' = (Inr (Some p), s''))"
    if h: "contains ''text/html'' content_type \<and> \<not> is_audio_url url \<and> resp_body r = Some text"
  proof -
    have d: "download_file L E url output_dir referer s
              = (HtmlPage text (resp_url r), log (Fetch url referer) s)"
      using h html by simp
    have "process_url L E url output_dir try_wayback s' = (Inr (Some p), s'')"
      if "referer = None \<and> makedirs_if_missing E output_dir s' = Inr s \<and> text \<noteq> []
          \<and> find_audio_on_page L text (resp_url r) = Inr links
          \<and> try_candidates L E links output_dir (resp_url r) (log (Fetch url None) s)
              = (Some p, s'')"
      using that d process_url_scan [of E output_dir "s'" s L url "text" "resp_url r"
          "log (Fetch url None) s" links p "s''" try_wayback]
      by simp
    with d show ?thesis by simp
  qed
  have 2: "fst (download_file L E url output_dir referer s) = HtmlPage text (resp_url r)"
    if "contains ''text/html'' content_type \<and> \<not> is_audio_url url \<and> resp_body r = Some text
        \<and> 400 \<le> status_code r \<and> status_code r < 600"
    using that html by simp
  have 3: "fst (download_file L E url output_dir referer s) = Failed"
    if "contains ''text/html'' content_type \<and> \<not> is_audio_url url \<and> resp_body r = None"
    using that html by simp
  have 4: "download_file L E url output_dir referer s = (Failed, log (Fetch url referer) s)"
    if "\<not> (contains ''text/html'' content_type \<and> \<not> is_audio_url url)
        \<and> 400 \<le> status_code r \<and> status_code r < 600"
    using that bin by (simp add: raise_for_status_def)
  from 1 2 3 4 show "(contains ''text/html'' content_type \<and> \<not> is_audio_url url
          \<and> resp_body r = Some text
        \<longrightarrow> download_file L E url output_dir referer s
              = (HtmlPage text (resp_url r), log (Fetch url referer) s)
          \<and> fst (download_file L E url output_dir referer s) \<noteq> Failed
          \<and> (referer = None \<and> makedirs_if_missing E output_dir s' = Inr s \<and> text \<noteq> []
               \<and> find_audio_on_page L text (resp_url r) = Inr links
               \<and> try_candidates L E links output_dir (resp_url r) (log (Fetch url None) s)
                   = (Some p, s'')
             \<longrightarrow> process_url L E url output_dir try_wayback s' = (Inr (Some p), s'')))
   \<and> (contains ''text/html'' content_type \<and> \<not> is_audio_url url \<and> resp_body r = Some text
        \<and> 400 \<le> status_code r \<and> status_code r < 600
        \<longrightarrow> fst (download_file L E url output_dir referer s) = HtmlPage text (resp_url r))
   \<and> (contains ''text/html'' content_type \<and> \<not> is_audio_url url \<and> resp_body r = None
        \<longrightarrow> fst (download_file L E url output_dir referer s) = Failed)
   \<and> (\<not> (contains ''text/html'' content_type \<and> \<not> is_audio_url url)
        \<and> 400 \<le> status_code r \<and> status_code r < 600
        \<longrightarrow> download_file L E url output_dir referer s = (Failed, log (Fetch url referer) s))"
    by blast
qed

theorem download_file_page_before_status_witness:
  "requests_get example_env (length (trace start)) ''http://h/gone'' (request_headers None)
     = Some (html_response 404 ''http://h/gone'' page_gone)
   \<and> status_code (html_response 404 ''http://h/gone'' page_gone) = 404
   \<and> contains ''text/html''
        (lower (case headers_get (html_response 404 ''http://h/gone'' page_gone) ''content-type''
                of None \<Rightarrow> [] | Some v \<Rightarrow> v))
   \<and> \<not> is_audio_url ''http://h/gone''
   \<and> resp_body (html_response 404 ''http://h/gone'' page_gone) = Some page_gone
   \<and> download_file example_lib example_env ''http://h/gone'' ''downloads'' None start
       = (HtmlPage page_gone ''http://h/gone'', log (Fetch ''http://h/gone'' None) start)
   \<and> find_audio_on_page example_lib page_gone ''http://h/gone'' = Inr [''http://h/song.mp3'']
   \<and> fst (process_url example_lib example_env ''http://h/gone'' ''downloads'' True
             \<lparr>existing = [''downloads''], trace = []\<rparr>)
       = Inr (Some ''downloads/song.mp3'')
   \<and> requests_get example_env (length (trace start)) ''http://h/missing.mp3''
        (request_headers None)
       = Some (html_response 404 ''http://h/missing.mp3'' page_gone)
   \<and> is_audio_url ''http://h/missing.mp3''
   \<and> download_file example_lib example_env ''http://h/missing.mp3'' ''downloads'' None start
       = (Failed, log (Fetch ''http://h/missing.mp3'' None) start)"
proof -
  let ?r = "html_response 404 ''http://h/gone'' page_gone"
  let ?r' = "html_response 404 ''http://h/missing.mp3'' page_gone"
  let ?ct = "''text/html; charset=utf-8''"
  have 1: "requests_get example_env (length (trace start)) ''http://h/gone'' (request_headers None)
     = Some ?r" by code_simp
  have 2: "status_code ?r = 404" by (simp add: html_response_def)
  have 3: "contains ''text/html''
        (lower (case headers_get ?r ''content-type'' of None \<Rightarrow> [] | Some v \<Rightarrow> v))"
    by code_simp
  have c1: "?ct = lower (case headers_get ?r ''content-type'' of None \<Rightarrow> [] | Some v \<Rightarrow> v)"
    by code_simp
  have 4: "\<not> is_audio_url ''http://h/gone''" by code_simp
  have 5: "resp_body ?r = Some page_gone" by (simp add: html_response_def)
  have 6: "find_audio_on_page example_lib page_gone ''http://h/gone'' = Inr [''http://h/song.mp3'']"
    by code_simp
  have 7: "fst (process_url example_lib example_env ''http://h/gone'' ''downloads'' True
             \<lparr>existing = [''downloads''], trace = []\<rparr>)
       = Inr (Some ''downloads/song.mp3'')"
    by code_simp
  have 8: "requests_get example_env (length (trace start)) ''http://h/missing.mp3''
        (request_headers None) = Some ?r'" by code_simp
  have c2: "?ct = lower (case headers_get ?r' ''content-type'' of None \<Rightarrow> [] | Some v \<Rightarrow> v)"
    by code_simp
  have 9: "is_audio_url ''http://h/missing.mp3''" by code_simp
  have 10: "400 \<le> status_code ?r' \<and> status_code ?r' < 600" by (simp add: html_response_def)
  have c3: "contains ''text/html'' ?ct" by code_simp
  have ru: "resp_url ?r = ''http://h/gone''" by (simp add: html_response_def)
  have "download_file example_lib example_env ''http://h/gone'' ''downloads'' None start
       = (HtmlPage page_gone (resp_url ?r), log (Fetch ''http://h/gone'' None) start)"
    using download_file_page_before_status [where E = example_env and s = start
        and url = "''http://h/gone''" and referer = None and r = ?r and content_type = ?ct
        and L = example_lib and output_dir = "''downloads''" and ?text = page_gone]
      1 c1 c3 4 5
    by blast
  then have a: "download_file example_lib example_env ''http://h/gone'' ''downloads'' None start
       = (HtmlPage page_gone ''http://h/gone'', log (Fetch ''http://h/gone'' None) start)"
    by (simp only: ru)
  have b: "download_file example_lib example_env ''http://h/missing.mp3'' ''downloads'' None start
       = (Failed, log (Fetch ''http://h/missing.mp3'' None) start)"
    using download_file_page_before_status [where E = example_env and s = start
        and url = "''http://h/missing.mp3''" and referer = None and r = ?r'
        and content_type = ?ct and L = example_lib and output_dir = "''downloads''"]
      8 c2 9 10
    by blast
  from 1 2 3 4 5 a 6 7 8 9 b show ?thesis by blast
qed

theorem unreadable_page_counterexample:
  "requests_get example_env (length (trace start)) ''http://h/broken'' (request_headers None)
     = Some (unreadable_response 404 ''http://h/broken'')
   \<and> status_code (unreadable_response 404 ''http://h/broken'') = 404
   \<and> contains ''text/html''
        (lower (case headers_get (unreadable_response 404 ''http://h/broken'') ''content-type''
                of None \<Rightarrow> [] | Some v \<Rightarrow> v))
   \<and> \<not> is_audio_url ''http://h/broken''
   \<and> resp_body (unreadable_response 404 ''http://h/broken'') = None
   \<and> download_file example_lib example_env ''http://h/broken'' ''downloads'' None start
       = (Failed, \<lparr>existing = [], trace = [Fetch ''http://h/broken'' None]\<rparr>)"
  by code_simp

section \<open>The resolution run\<close>

lemma process_url_unfold:
  "process_url L E url output_dir try_wayback s =
     (case direct_and_scan L E url output_dir s of
        (Inr None, s2) \<Rightarrow>
          if try_wayback then
            (case get_wayback_url E url s2 of
               (wb_url, s3) \<Rightarrow>
                 if truthy wb_url then
                   (case wb_url of
                      JStr w \<Rightarrow> process_url L E w output_dir False s3
                    | _ \<Rightarrow> process_url_not_str E output_dir s3)
                 else (Inr None, s3))
          else (Inr None, s2)
      | (res, s2) \<Rightarrow> (res, s2))"
  by (subst process_url.simps)
     (auto simp: direct_and_scan_def scan_page_def
           split: sum.splits prod.splits outcome.splits option.splits)

lemma process_url_no_fallback:
  "process_url L E url output_dir False s = direct_and_scan L E url output_dir s"
  by (subst process_url_unfold) (auto split: prod.splits sum.splits option.splits)

subsection \<open>What each step does to the state\<close>

lemma lookups_log: "lookups (log ev s) = lookups s + (if is_lookup ev then 1 else 0)"
  by (simp add: lookups_def log_def)

lemma direct_fetches_log:
  "direct_fetches (log ev s) = direct_fetches s + (if is_direct_fetch ev then 1 else 0)"
  by (simp add: direct_fetches_def log_def)

lemma lookups_existing [simp]: "lookups (s\<lparr>existing := x\<rparr>) = lookups s"
  by (simp add: lookups_def)

lemma direct_fetches_existing [simp]: "direct_fetches (s\<lparr>existing := x\<rparr>) = direct_fetches s"
  by (simp add: direct_fetches_def)

lemma save_effect:
  "set (existing s) \<subseteq> set (existing (snd (save E r p s)))
   \<and> prefix (trace s) (trace (snd (save E r p s)))
   \<and> lookups (snd (save E r p s)) = lookups s
   \<and> direct_fetches (snd (save E r p s)) = direct_fetches s"
  by (auto simp: save_def Let_def log_def lookups_def direct_fetches_def)

lemma download_file_effect:
  "set (existing s) \<subseteq> set (existing (snd (download_file L E url output_dir referer s)))
   \<and> prefix (trace s) (trace (snd (download_file L E url output_dir referer s)))
   \<and> lookups (snd (download_file L E url output_dir referer s)) = lookups s
   \<and> direct_fetches (snd (download_file L E url output_dir referer s))
       = direct_fetches s + (if referer = None then 1 else 0)"
proof -
  let ?s1 = "log (Fetch url referer) s"
  have base: "set (existing s) \<subseteq> set (existing ?s1) \<and> prefix (trace s) (trace ?s1)
      \<and> lookups ?s1 = lookups s
      \<and> direct_fetches ?s1 = direct_fetches s + (if referer = None then 1 else 0)"
    by (cases referer) (simp_all add: log_def lookups_def direct_fetches_def)
  have "snd (download_file L E url output_dir referer s) = ?s1
        \<or> (\<exists>r p. snd (download_file L E url output_dir referer s) = snd (save E r p ?s1))"
    by (auto simp: download_file_def Let_def split: option.splits)
  then show ?thesis
  proof
    assume "snd (download_file L E url output_dir referer s) = ?s1"
    then show ?thesis using base by simp
  next
    assume "\<exists>r p. snd (download_file L E url output_dir referer s) = snd (save E r p ?s1)"
    then obtain r p where
      e: "snd (download_file L E url output_dir referer s) = snd (save E r p ?s1)"
      by blast
    show ?thesis
      unfolding e using base save_effect [of ?s1 E r p]
      by (metis (no_types, lifting) order_trans prefix_order.order_trans)
  qed
qed

lemma try_candidates_Cons:
  "try_candidates L E (link # links) output_dir final_url s
     = (case fst (download_file L E link output_dir (Some final_url) s) of
          Downloaded path \<Rightarrow>
            (Some path, snd (download_file L E link output_dir (Some final_url) s))
        | HtmlPage text u \<Rightarrow>
            try_candidates L E links output_dir final_url
              (snd (download_file L E link output_dir (Some final_url) s))
        | Failed \<Rightarrow>
            try_candidates L E links output_dir final_url
              (snd (download_file L E link output_dir (Some final_url) s)))"
  by (simp split: prod.splits outcome.splits)

lemma try_candidates_effect:
  "set (existing s) \<subseteq> set (existing (snd (try_candidates L E links output_dir final_url s)))
   \<and> prefix (trace s) (trace (snd (try_candidates L E links output_dir final_url s)))
   \<and> lookups (snd (try_candidates L E links output_dir final_url s)) = lookups s
   \<and> direct_fetches (snd (try_candidates L E links output_dir final_url s)) = direct_fetches s"
proof (induction links arbitrary: s)
  case Nil
  then show ?case by simp
next
  case (Cons link links)
  let ?s' = "snd (download_file L E link output_dir (Some final_url) s)"
  note d = download_file_effect [of s L E link output_dir "Some final_url"]
  note ih = Cons [of ?s']
  show ?case
  proof (cases "fst (download_file L E link output_dir (Some final_url) s)")
    case (Downloaded path)
    then show ?thesis using d by (simp add: try_candidates_Cons del: try_candidates.simps)
  next
    case (HtmlPage x y)
    then show ?thesis
      using d ih
      by (simp add: try_candidates_Cons del: try_candidates.simps)
         (metis order_trans prefix_order.order_trans)
  next
    case Failed
    then show ?thesis
      using d ih
      by (simp add: try_candidates_Cons del: try_candidates.simps)
         (metis order_trans prefix_order.order_trans)
  qed
qed

lemma resolve_exn: "resolve L base_url cs = Inl e \<Longrightarrow> e = ValueError"
  by (induction cs) (auto split: if_splits option.splits sum.splits)

lemma resolve_total:
  assumes "\<forall>b c. urljoin L b c \<noteq> None"
  shows "resolve L base_url cs \<noteq> Inl e"
proof (induction cs)
  case Nil
  then show ?case by simp
next
  case (Cons c cs)
  from assms obtain y where "urljoin L base_url c = Some y" by fastforce
  with Cons show ?case by (auto split: sum.splits)
qed

lemma find_audio_on_page_exn:
  "find_audio_on_page L html_content base_url = Inl e \<Longrightarrow>
     e = ValueError \<or> e = ParserRejectedMarkup"
  by (auto simp: find_audio_on_page_def unique_candidates_def
           split: option.splits sum.splits dest: resolve_exn)

lemma find_audio_on_page_total:
  assumes "\<forall>h. html_parser L h \<noteq> None" and "\<forall>b c. urljoin L b c \<noteq> None"
  shows "find_audio_on_page L html_content base_url \<noteq> Inl e"
proof -
  from assms(1) obtain soup where "html_parser L html_content = Some soup" by fastforce
  then show ?thesis
    using resolve_total [OF assms(2)]
    by (simp add: find_audio_on_page_def unique_candidates_def split: sum.splits)
qed

lemma scan_page_cases:
  "scan_page L E oc output_dir s = (Inr None, s)
   \<or> (\<exists>e. scan_page L E oc output_dir s = (Inl e, s)
          \<and> (\<exists>h u. h \<noteq> [] \<and> find_audio_on_page L h u = Inl e))
   \<or> (\<exists>links u. scan_page L E oc output_dir s
          = (Inr (fst (try_candidates L E links output_dir u s)),
             snd (try_candidates L E links output_dir u s)))"
proof (cases oc)
  case (Downloaded p)
  then show ?thesis by (simp add: scan_page_def)
next
  case Failed
  then show ?thesis by (simp add: scan_page_def)
next
  case (HtmlPage h u)
  show ?thesis
  proof (cases "h = []")
    case True
    with HtmlPage show ?thesis by (simp add: scan_page_def)
  next
    case False
    show ?thesis
    proof (cases "find_audio_on_page L h u")
      case (Inl e)
      with HtmlPage False have "scan_page L E oc output_dir s = (Inl e, s)"
        by (simp add: scan_page_def)
      with Inl False show ?thesis by blast
    next
      case (Inr links)
      with HtmlPage False have "scan_page L E oc output_dir s
          = (Inr (fst (try_candidates L E links output_dir u s)),
             snd (try_candidates L E links output_dir u s))"
        by (simp add: scan_page_def split: prod.splits)
      then show ?thesis by blast
    qed
  qed
qed

lemma scan_page_effect:
  "set (existing s) \<subseteq> set (existing (snd (scan_page L E oc output_dir s)))
   \<and> prefix (trace s) (trace (snd (scan_page L E oc output_dir s)))
   \<and> lookups (snd (scan_page L E oc output_dir s)) = lookups s
   \<and> direct_fetches (snd (scan_page L E oc output_dir s)) = direct_fetches s
   \<and> fst (scan_page L E oc output_dir s) \<noteq> Inl OSError"
  using scan_page_cases [of L E oc output_dir s]
proof (elim disjE exE conjE)
  assume "scan_page L E oc output_dir s = (Inr None, s)"
  then show ?thesis by simp
next
  fix e h u
  assume "scan_page L E oc output_dir s = (Inl e, s)" "h \<noteq> []"
    "find_audio_on_page L h u = Inl e"
  then show ?thesis using find_audio_on_page_exn [of L h u e] by auto
next
  fix links u
  assume "scan_page L E oc output_dir s
          = (Inr (fst (try_candidates L E links output_dir u s)),
             snd (try_candidates L E links output_dir u s))"
  then show ?thesis using try_candidates_effect [of s L E links output_dir u] by simp
qed

lemma scan_page_total:
  assumes "\<forall>h. html_parser L h \<noteq> None" and "\<forall>b c. urljoin L b c \<noteq> None"
  shows "fst (scan_page L E oc output_dir s) \<noteq> Inl e"
  using scan_page_cases [of L E oc output_dir s] find_audio_on_page_total [OF assms]
  by auto

lemma makedirs_if_missing_Inr:
  "makedirs_if_missing E output_dir s = Inr s0 \<Longrightarrow>
     (os_path_exists s output_dir \<or> makedirs_ok E (length (trace s)) output_dir)
   \<and> output_dir \<in> set (existing s0)
   \<and> set (existing s) \<subseteq> set (existing s0)
   \<and> prefix (trace s) (trace s0)
   \<and> (\<not> os_path_exists s output_dir \<longrightarrow> trace s0 = trace s @ [MakeDirs output_dir])
   \<and> lookups s0 = lookups s
   \<and> direct_fetches s0 = direct_fetches s"
  by (auto simp: makedirs_if_missing_def os_path_exists_def log_def lookups_def
        direct_fetches_def split: if_splits)

lemma makedirs_if_missing_Inl:
  "makedirs_if_missing E output_dir s = Inl e \<longleftrightarrow>
     e = OSError \<and> \<not> os_path_exists s output_dir
     \<and> \<not> makedirs_ok E (length (trace s)) output_dir"
  by (auto simp: makedirs_if_missing_def)

lemma get_wayback_url_effect:
  "existing (snd (get_wayback_url E url s)) = existing s
   \<and> trace (snd (get_wayback_url E url s)) = trace s @ [Lookup url]
   \<and> lookups (snd (get_wayback_url E url s)) = lookups s + 1
   \<and> direct_fetches (snd (get_wayback_url E url s)) = direct_fetches s"
  by (auto simp: get_wayback_url_def log_def lookups_def direct_fetches_def split: sum.splits)

lemma direct_and_scan_Inl:
  "makedirs_if_missing E output_dir s = Inl e \<Longrightarrow>
     direct_and_scan L E url output_dir s = (Inl OSError, s)"
proof -
  assume a: "makedirs_if_missing E output_dir s = Inl e"
  then have "e = OSError" by (simp add: makedirs_if_missing_Inl)
  with a show ?thesis by (simp add: direct_and_scan_def)
qed

lemma direct_and_scan_cases:
  assumes "makedirs_if_missing E output_dir s = Inr s0"
  shows "(\<exists>p. direct_and_scan L E url output_dir s
            = (Inr (Some p), snd (download_file L E url output_dir None s0)))
       \<or> (\<exists>oc. direct_and_scan L E url output_dir s
            = scan_page L E oc output_dir (snd (download_file L E url output_dir None s0)))"
  using assms
  by (auto simp: direct_and_scan_def split: prod.splits outcome.splits)

lemma direct_and_scan_Inr:
  assumes "makedirs_if_missing E output_dir s = Inr s0"
  shows "set (existing s0) \<subseteq> set (existing (snd (direct_and_scan L E url output_dir s)))
       \<and> prefix (trace s0 @ [Fetch url None]) (trace (snd (direct_and_scan L E url output_dir s)))
       \<and> lookups (snd (direct_and_scan L E url output_dir s)) = lookups s0
       \<and> direct_fetches (snd (direct_and_scan L E url output_dir s)) = direct_fetches s0 + 1
       \<and> fst (direct_and_scan L E url output_dir s) \<noteq> Inl OSError
       \<and> ((\<forall>h. html_parser L h \<noteq> None) \<and> (\<forall>b c. urljoin L b c \<noteq> None)
            \<longrightarrow> (\<forall>e. fst (direct_and_scan L E url output_dir s) \<noteq> Inl e))"
proof -
  let ?s1 = "snd (download_file L E url output_dir None s0)"
  note d = download_file_effect [of s0 L E url output_dir None]
  have f: "prefix (trace s0 @ [Fetch url None]) (trace ?s1)"
    by (auto simp: download_file_def Let_def save_def log_def split: option.splits)
  from direct_and_scan_cases [OF assms, of L url] show ?thesis
  proof (elim disjE exE)
    fix p
    assume "direct_and_scan L E url output_dir s = (Inr (Some p), ?s1)"
    then show ?thesis using d f by simp
  next
    fix oc
    assume e: "direct_and_scan L E url output_dir s = scan_page L E oc output_dir ?s1"
    note sc = scan_page_effect [of ?s1 L E oc output_dir]
    have "set (existing s0) \<subseteq> set (existing (snd (scan_page L E oc output_dir ?s1)))"
      using d sc by blast
    moreover have "prefix (trace s0 @ [Fetch url None])
                     (trace (snd (scan_page L E oc output_dir ?s1)))"
      using f sc by (meson prefix_order.order_trans)
    moreover have "(\<forall>h. html_parser L h \<noteq> None) \<and> (\<forall>b c. urljoin L b c \<noteq> None)
            \<longrightarrow> (\<forall>e. fst (scan_page L E oc output_dir ?s1) \<noteq> Inl e)"
      using scan_page_total [of L E oc output_dir ?s1] by blast
    ultimately show ?thesis unfolding e using d sc by simp
  qed
qed

lemma makedirs_if_missing_present:
  "output_dir \<in> set (existing s) \<Longrightarrow> makedirs_if_missing E output_dir s = Inr s"
  by (simp add: makedirs_if_missing_def os_path_exists_def)

lemma process_url_Inl:
  "makedirs_if_missing E output_dir s = Inl e \<Longrightarrow>
     process_url L E url output_dir try_wayback s = (Inl OSError, s)"
  by (subst process_url_unfold) (simp add: direct_and_scan_Inl)

lemma process_url_cases:
  assumes "makedirs_if_missing E output_dir s = Inr s0"
  shows "process_url L E url output_dir try_wayback s = direct_and_scan L E url output_dir s
       \<or> try_wayback
         \<and> (\<exists>s2. direct_and_scan L E url output_dir s = (Inr None, s2)
              \<and> (process_url L E url output_dir try_wayback s
                    = (Inr None, snd (get_wayback_url E url s2))
                 \<or> (\<exists>w. fst (get_wayback_url E url s2) = JStr w \<and> w \<noteq> []
                      \<and> process_url L E url output_dir try_wayback s
                          = direct_and_scan L E w output_dir (snd (get_wayback_url E url s2)))))"
proof (cases "direct_and_scan L E url output_dir s")
  case (Pair res s2)
  note da = direct_and_scan_Inr [OF assms, of L url]
  have ex: "output_dir \<in> set (existing s2)"
    using da makedirs_if_missing_Inr [OF assms] Pair by auto
  let ?s3 = "snd (get_wayback_url E url s2)"
  have ex3: "output_dir \<in> set (existing ?s3)"
    using ex get_wayback_url_effect [of E url s2] by simp
  have ns: "process_url_not_str E output_dir ?s3 = (Inr None, ?s3)"
    using ex3 by (simp add: process_url_not_str_def makedirs_if_missing_present)
  show ?thesis
  proof (cases "res = Inr None \<and> try_wayback")
    case False
    then have "process_url L E url output_dir try_wayback s = (res, s2)"
      using Pair by (subst process_url_unfold) (auto split: sum.splits option.splits)
    then show ?thesis using Pair by simp
  next
    case True
    then have p: "process_url L E url output_dir try_wayback s
        = (if truthy (fst (get_wayback_url E url s2)) then
             (case fst (get_wayback_url E url s2) of
                JStr w \<Rightarrow> process_url L E w output_dir False ?s3
              | _ \<Rightarrow> process_url_not_str E output_dir ?s3)
           else (Inr None, ?s3))"
      using Pair by (subst process_url_unfold) (simp add: case_prod_beta)
    have "process_url L E url output_dir try_wayback s = (Inr None, ?s3)
          \<or> (\<exists>w. fst (get_wayback_url E url s2) = JStr w \<and> w \<noteq> []
               \<and> process_url L E url output_dir try_wayback s
                   = direct_and_scan L E w output_dir ?s3)"
      unfolding p using ns
      by (cases "fst (get_wayback_url E url s2)") (simp_all add: process_url_no_fallback)
    then show ?thesis using True Pair by blast
  qed
qed

lemma process_url_effect:
  assumes "makedirs_if_missing E output_dir s = Inr s0"
  shows "output_dir \<in> set (existing (snd (process_url L E url output_dir try_wayback s)))
       \<and> prefix (trace s0 @ [Fetch url None])
           (trace (snd (process_url L E url output_dir try_wayback s)))
       \<and> lookups (snd (process_url L E url output_dir try_wayback s))
           \<le> lookups s + (if try_wayback then 1 else 0)
       \<and> direct_fetches (snd (process_url L E url output_dir try_wayback s))
           \<le> direct_fetches s + (if try_wayback then 2 else 1)
       \<and> fst (process_url L E url output_dir try_wayback s) \<noteq> Inl OSError
       \<and> ((\<forall>h. html_parser L h \<noteq> None) \<and> (\<forall>b c. urljoin L b c \<noteq> None)
            \<longrightarrow> (\<forall>e. fst (process_url L E url output_dir try_wayback s) \<noteq> Inl e))"
proof -
  note m = makedirs_if_missing_Inr [OF assms]
  note da = direct_and_scan_Inr [OF assms, of L url]
  from process_url_cases [OF assms, of L url try_wayback] show ?thesis
  proof (elim disjE conjE exE)
    assume "process_url L E url output_dir try_wayback s = direct_and_scan L E url output_dir s"
    then show ?thesis using m da by auto
  next
    fix s2
    assume tw: try_wayback and d: "direct_and_scan L E url output_dir s = (Inr None, s2)"
      and p: "process_url L E url output_dir try_wayback s
                = (Inr None, snd (get_wayback_url E url s2))"
    note g = get_wayback_url_effect [of E url s2]
    have "prefix (trace s0 @ [Fetch url None]) (trace (snd (get_wayback_url E url s2)))"
      using da d g by (auto simp: prefix_def)
    then show ?thesis unfolding p using tw m da d g by auto
  next
    fix s2 w
    assume tw: try_wayback and d: "direct_and_scan L E url output_dir s = (Inr None, s2)"
      and w: "fst (get_wayback_url E url s2) = JStr w" "w \<noteq> []"
      and p: "process_url L E url output_dir try_wayback s
                = direct_and_scan L E w output_dir (snd (get_wayback_url E url s2))"
    let ?s3 = "snd (get_wayback_url E url s2)"
    note g = get_wayback_url_effect [of E url s2]
    have ex3: "output_dir \<in> set (existing ?s3)" using m da d g by auto
    note da3 = direct_and_scan_Inr [OF makedirs_if_missing_present [OF ex3],
        where E = E and L = L and url = w]
    have "prefix (trace s0 @ [Fetch url None]) (trace ?s3)"
      using da d g by (auto simp: prefix_def)
    moreover have "prefix (trace ?s3) (trace ?s3 @ [Fetch w None])" by simp
    ultimately have "prefix (trace s0 @ [Fetch url None])
        (trace (snd (direct_and_scan L E w output_dir ?s3)))"
      using da3 by (meson prefix_order.order_trans)
    then show ?thesis unfolding p using tw m da d g da3 ex3 by auto
  qed
qed

lemma process_url_fallback:
  assumes "output_dir \<in> set (existing s2)"
    and "direct_and_scan L E url output_dir s = (Inr None, s2)"
  shows "process_url L E url output_dir True s = (Inr None, snd (get_wayback_url E url s2))
       \<or> (\<exists>w. fst (get_wayback_url E url s2) = JStr w \<and> w \<noteq> []
            \<and> process_url L E url output_dir True s
                = direct_and_scan L E w output_dir (snd (get_wayback_url E url s2)))"
proof -
  let ?s3 = "snd (get_wayback_url E url s2)"
  have ex3: "output_dir \<in> set (existing ?s3)"
    using assms(1) get_wayback_url_effect [of E url s2] by simp
  have ns: "process_url_not_str E output_dir ?s3 = (Inr None, ?s3)"
    using ex3 by (simp add: process_url_not_str_def makedirs_if_missing_present)
  have p: "process_url L E url output_dir True s
        = (if truthy (fst (get_wayback_url E url s2)) then
             (case fst (get_wayback_url E url s2) of
                JStr w \<Rightarrow> process_url L E w output_dir False ?s3
              | _ \<Rightarrow> process_url_not_str E output_dir ?s3)
           else (Inr None, ?s3))"
    using assms(2) by (subst process_url_unfold) (simp add: case_prod_beta)
  show ?thesis
    unfolding p using ns
    by (cases "fst (get_wayback_url E url s2)") (simp_all add: process_url_no_fallback)
qed

lemma process_url_recursion:
  assumes "direct_and_scan L E url output_dir s = (Inr None, s2)"
    and "get_wayback_url E url s2 = (JStr w, s3)" and "w \<noteq> []"
  shows "process_url L E url output_dir True s = process_url L E w output_dir False s3"
  using assms by (subst process_url_unfold) simp

lemma process_url_lookup_after_failure:
  assumes "makedirs_if_missing E output_dir s = Inr s0"
    and "fst (download_file L E url output_dir None s0) = Failed"
  shows "Lookup url \<in> set (trace (snd (process_url L E url output_dir True s)))"
proof -
  let ?s1 = "snd (download_file L E url output_dir None s0)"
  have d: "direct_and_scan L E url output_dir s = (Inr None, ?s1)"
    using assms by (auto simp: direct_and_scan_def scan_page_def split: prod.splits)
  have ex: "output_dir \<in> set (existing ?s1)"
    using makedirs_if_missing_Inr [OF assms(1)] download_file_effect [of s0 L E url output_dir None]
    by blast
  let ?s3 = "snd (get_wayback_url E url ?s1)"
  note g = get_wayback_url_effect [of E url ?s1]
  have l3: "Lookup url \<in> set (trace ?s3)" using g by simp
  have ex3: "output_dir \<in> set (existing ?s3)" using ex g by simp
  from process_url_fallback [OF ex d] show ?thesis
  proof (elim disjE exE conjE)
    assume "process_url L E url output_dir True s = (Inr None, ?s3)"
    then show ?thesis using l3 by simp
  next
    fix w
    assume p: "process_url L E url output_dir True s = direct_and_scan L E w output_dir ?s3"
    note da3 = direct_and_scan_Inr [OF makedirs_if_missing_present [OF ex3],
        where E = E and L = L and url = w]
    then have "prefix (trace ?s3) (trace (snd (direct_and_scan L E w output_dir ?s3)))"
      by (meson prefix_order.order_trans prefixI)
    then show ?thesis unfolding p using l3 set_mono_prefix by blast
  qed
qed

lemma process_url_OSError:
  "(fst (process_url L E url output_dir try_wayback s) = Inl OSError)
     = (\<not> os_path_exists s output_dir \<and> \<not> makedirs_ok E (length (trace s)) output_dir)"
proof (cases "makedirs_if_missing E output_dir s")
  case (Inl e)
  then show ?thesis
    using process_url_Inl [OF Inl, of L url try_wayback] by (simp add: makedirs_if_missing_Inl)
next
  case (Inr s0)
  then show ?thesis
    using process_url_effect [OF Inr, of L url try_wayback] makedirs_if_missing_Inr [OF Inr]
    by blast
qed


lemma direct_and_scan_exn:
  assumes "makedirs_if_missing E output_dir s = Inr s0"
    and "fst (direct_and_scan L E url output_dir s) = Inl e"
  shows "(e = ValueError \<or> e = ParserRejectedMarkup)
       \<and> (\<exists>h u. h \<noteq> [] \<and> find_audio_on_page L h u = Inl e)"
proof -
  let ?s1 = "snd (download_file L E url output_dir None s0)"
  from direct_and_scan_cases [OF assms(1), of L url] assms(2)
  obtain oc where
    sc: "direct_and_scan L E url output_dir s = scan_page L E oc output_dir ?s1"
    by auto
  from scan_page_cases [of L E oc output_dir ?s1] assms(2) sc
  obtain h u where hu: "h \<noteq> []" "find_audio_on_page L h u = Inl e"
    by auto
  then show ?thesis using find_audio_on_page_exn [of L h u e] by blast
qed

lemma process_url_exn:
  assumes "fst (process_url L E url output_dir try_wayback s) = Inl e"
  shows "e = OSError \<and> \<not> os_path_exists s output_dir
           \<and> \<not> makedirs_ok E (length (trace s)) output_dir
       \<or> (e = ValueError \<or> e = ParserRejectedMarkup)
           \<and> (\<exists>h u. h \<noteq> [] \<and> find_audio_on_page L h u = Inl e)"
proof (cases "makedirs_if_missing E output_dir s")
  case (Inl e')
  then show ?thesis
    using assms process_url_Inl [OF Inl, of L url try_wayback]
    by (simp add: makedirs_if_missing_Inl)
next
  case (Inr s0)
  from process_url_cases [OF Inr, of L url try_wayback] show ?thesis
  proof (elim disjE conjE exE)
    assume "process_url L E url output_dir try_wayback s = direct_and_scan L E url output_dir s"
    then show ?thesis using assms direct_and_scan_exn [OF Inr, of L url e] by simp
  next
    fix s2
    assume "process_url L E url output_dir try_wayback s
              = (Inr None, snd (get_wayback_url E url s2))"
    then show ?thesis using assms by simp
  next
    fix s2 w
    assume d: "direct_and_scan L E url output_dir s = (Inr None, s2)"
      and p: "process_url L E url output_dir try_wayback s
                = direct_and_scan L E w output_dir (snd (get_wayback_url E url s2))"
    let ?s3 = "snd (get_wayback_url E url s2)"
    have "output_dir \<in> set (existing s2)"
      using direct_and_scan_Inr [OF Inr, of L url] makedirs_if_missing_Inr [OF Inr] d by auto
    then have ex3: "output_dir \<in> set (existing ?s3)"
      using get_wayback_url_effect [of E url s2] by simp
    show ?thesis
      using assms direct_and_scan_exn [OF makedirs_if_missing_present [OF ex3],
          where E = E and L = L and url = w and e = e]
      unfolding p by simp
  qed
qed

lemma download_file_Downloaded_ok:
  "fst (download_file L E url output_dir referer s) = Downloaded p \<Longrightarrow>
     open_ok E (Suc (length (trace s))) p \<and> write_ok E (Suc (length (trace s))) p
   \<and> (\<exists>r. requests_get E (length (trace s)) url (request_headers referer) = Some r
          \<and> resp_body r \<noteq> None)"
  by (auto simp: download_file_def Let_def save_def log_def split: option.splits if_splits)

text \<open>
  Claim C3, as amended.  The one exception that leaves \<^verbatim>\<open>process_url\<close> as \<^verbatim>\<open>OSError\<close> is a
  failure to create the output directory.  Any other exception that leaves it is the
  \<^verbatim>\<open>ValueError\<close> or the parser's exception that \<^verbatim>\<open>find_audio_on_page\<close> raises on a non-empty
  page; no failure of a request, of a status check, of the archive lookup or of the file
  system inside \<^verbatim>\<open>download_file\<close> leaves \<^verbatim>\<open>process_url\<close>.  A file that cannot be opened or
  written, like a body that cannot be read, makes \<^verbatim>\<open>download_file\<close> return its failure
  triple (a download succeeds only when the file opened and every write succeeded); the
  loop over the candidates then goes on to the next candidate, and after a failed direct
  download \<^verbatim>\<open>process_url\<close> with the fallback allowed asks the archive.
\<close>

theorem process_url_absorbs_failures:
  "((fst (process_url L E url output_dir try_wayback s) = Inl OSError)
      = (\<not> os_path_exists s output_dir \<and> \<not> makedirs_ok E (length (trace s)) output_dir))
   \<and> (fst (process_url L E url output_dir try_wayback s) = Inl e
      \<longrightarrow> e = OSError \<and> \<not> os_path_exists s output_dir
            \<and> \<not> makedirs_ok E (length (trace s)) output_dir
        \<or> (e = ValueError \<or> e = ParserRejectedMarkup)
            \<and> (\<exists>h u. h \<noteq> [] \<and> find_audio_on_page L h u = Inl e))
   \<and> (fst (download_file L E link output_dir referer s1) = Downloaded q
      \<longrightarrow> open_ok E (Suc (length (trace s1))) q \<and> write_ok E (Suc (length (trace s1))) q
        \<and> (\<exists>r'. requests_get E (length (trace s1)) link (request_headers referer) = Some r'
               \<and> resp_body r' \<noteq> None))
   \<and> (\<not> open_ok E (length (trace s1)) p \<or> resp_body r = None
        \<or> \<not> write_ok E (length (trace s1)) p
      \<longrightarrow> fst (save E r p s1) = Failed)
   \<and> (fst (download_file L E link output_dir (Some final_url) s1) = Failed
      \<longrightarrow> try_candidates L E (link # links) output_dir final_url s1
          = try_candidates L E links output_dir final_url
              (snd (download_file L E link output_dir (Some final_url) s1)))
   \<and> (makedirs_if_missing E output_dir s = Inr s0
        \<and> fst (download_file L E url output_dir None s0) = Failed
      \<longrightarrow> Lookup url \<in> set (trace (snd (process_url L E url output_dir True s))))"
proof (intro conjI impI)
  show "(fst (process_url L E url output_dir try_wayback s) = Inl OSError)
      = (\<not> os_path_exists s output_dir \<and> \<not> makedirs_ok E (length (trace s)) output_dir)"
    by (rule process_url_OSError)
  show "e = OSError \<and> \<not> os_path_exists s output_dir
            \<and> \<not> makedirs_ok E (length (trace s)) output_dir
        \<or> (e = ValueError \<or> e = ParserRejectedMarkup)
            \<and> (\<exists>h u. h \<noteq> [] \<and> find_audio_on_page L h u = Inl e)"
    if "fst (process_url L E url output_dir try_wayback s) = Inl e"
    using that by (rule process_url_exn)
  show "open_ok E (Suc (length (trace s1))) q"
    and "write_ok E (Suc (length (trace s1))) q"
    and "\<exists>r'. requests_get E (length (trace s1)) link (request_headers referer) = Some r'
               \<and> resp_body r' \<noteq> None"
    if "fst (download_file L E link output_dir referer s1) = Downloaded q"
    using download_file_Downloaded_ok [OF that] by blast+
  show "fst (save E r p s1) = Failed"
    if "\<not> open_ok E (length (trace s1)) p \<or> resp_body r = None
        \<or> \<not> write_ok E (length (trace s1)) p"
    using that by (auto simp: save_def Let_def)
  show "try_candidates L E (link # links) output_dir final_url s1
          = try_candidates L E links output_dir final_url
              (snd (download_file L E link output_dir (Some final_url) s1))"
    if "fst (download_file L E link output_dir (Some final_url) s1) = Failed"
    using that by (simp add: try_candidates_Cons del: try_candidates.simps)
  show "Lookup url \<in> set (trace (snd (process_url L E url output_dir True s)))"
    if "makedirs_if_missing E output_dir s = Inr s0
        \<and> fst (download_file L E url output_dir None s0) = Failed"
    using that process_url_lookup_after_failure [of E output_dir s s0 L url] by blast
qed

theorem process_url_absorbs_failures_witness:
  "makedirs_ok readonly_env (length (trace start)) ''downloads''
   \<and> fst (process_url example_lib readonly_env ''http://h/clip.mp3'' ''downloads'' True start)
       \<noteq> Inl OSError
   \<and> fst (process_url example_lib locked_env ''http://h/clip.mp3'' ''downloads'' True start)
       = Inl OSError
   \<and> \<not> os_path_exists start ''downloads''
   \<and> \<not> makedirs_ok locked_env (length (trace start)) ''downloads''
   \<and> fst (download_file example_lib example_env ''http://h/clip.mp3'' ''downloads'' None start)
       = Downloaded ''downloads/clip.mp3''
   \<and> open_ok example_env (Suc (length (trace start))) ''downloads/clip.mp3''
   \<and> \<not> open_ok readonly_env (length (trace start)) ''downloads/clip.mp3''
   \<and> fst (save readonly_env (audio_response 200 ''http://h/clip.mp3'') ''downloads/clip.mp3''
            start) = Failed
   \<and> makedirs_if_missing readonly_env ''downloads'' start
       = Inr \<lparr>existing = [''downloads''], trace = [MakeDirs ''downloads'']\<rparr>
   \<and> fst (download_file example_lib readonly_env ''http://h/clip.mp3'' ''downloads'' None
            \<lparr>existing = [''downloads''], trace = [MakeDirs ''downloads'']\<rparr>) = Failed
   \<and> Lookup ''http://h/clip.mp3''
       \<in> set (trace (snd (process_url example_lib readonly_env ''http://h/clip.mp3''
                              ''downloads'' True start)))"
proof -
  let ?s0 = "\<lparr>existing = [''downloads''], trace = [MakeDirs ''downloads'']\<rparr>"
  let ?u = "''http://h/clip.mp3''"
  note t = process_url_absorbs_failures [where L = example_lib and E = readonly_env
      and url = ?u and output_dir = "''downloads''" and try_wayback = True and s = start
      and ?s1.0 = start and e = OSError and p = "''downloads/clip.mp3''"
      and r = "audio_response 200 ''http://h/clip.mp3''" and ?s0.0 = ?s0]
  note t' = process_url_absorbs_failures [where L = example_lib and E = locked_env
      and url = ?u and output_dir = "''downloads''" and try_wayback = True and s = start
      and e = OSError]
  note t'' = process_url_absorbs_failures [where L = example_lib and E = example_env
      and link = ?u and output_dir = "''downloads''" and referer = None and ?s1.0 = start
      and q = "''downloads/clip.mp3''"]
  have 1: "makedirs_ok readonly_env (length (trace start)) ''downloads''"
    by (simp add: readonly_env_def example_env_def)
  have 2: "\<not> open_ok readonly_env (length (trace start)) ''downloads/clip.mp3''"
    by (simp add: readonly_env_def example_env_def)
  have 3: "makedirs_if_missing readonly_env ''downloads'' start = Inr ?s0"
    by code_simp
  have 4: "fst (download_file example_lib readonly_env ?u ''downloads'' None ?s0) = Failed"
    by code_simp
  have 5: "fst (process_url example_lib locked_env ?u ''downloads'' True start) = Inl OSError"
    by code_simp
  have 6: "fst (download_file example_lib example_env ?u ''downloads'' None start)
       = Downloaded ''downloads/clip.mp3''"
    by code_simp
  have a: "fst (process_url example_lib readonly_env ?u ''downloads'' True start) \<noteq> Inl OSError"
    using t 1 by simp
  have b: "fst (save readonly_env (audio_response 200 ''http://h/clip.mp3'')
                 ''downloads/clip.mp3'' start) = Failed"
    using t 2 by blast
  have c: "Lookup ?u \<in> set (trace (snd (process_url example_lib readonly_env ?u
                              ''downloads'' True start)))"
    using t 3 4 by blast
  have d: "\<not> os_path_exists start ''downloads''
           \<and> \<not> makedirs_ok locked_env (length (trace start)) ''downloads''"
    using t' 5 by blast
  have e: "open_ok example_env (Suc (length (trace start))) ''downloads/clip.mp3''"
    using t'' 6 by blast
  from 1 a 5 d 6 e 2 b 3 4 c show ?thesis by blast
qed

theorem write_error_counterexample:
  "requests_get readonly_env 1 ''http://h/clip.mp3'' (request_headers None)
     = Some (audio_response 200 ''http://h/clip.mp3'')
   \<and> \<not> open_ok readonly_env 2 ''downloads/clip.mp3''
   \<and> download_file example_lib readonly_env ''http://h/clip.mp3'' ''downloads'' None
        \<lparr>existing = [''downloads''], trace = [MakeDirs ''downloads'']\<rparr>
       = (Failed, \<lparr>existing = [''downloads''],
                   trace = [MakeDirs ''downloads'', Fetch ''http://h/clip.mp3'' None]\<rparr>)
   \<and> download_file example_lib example_env ''http://h/clip.mp3'' ''downloads'' None
        \<lparr>existing = [''downloads''], trace = [MakeDirs ''downloads'']\<rparr>
       = (Downloaded ''downloads/clip.mp3'',
          \<lparr>existing = [''downloads/clip.mp3'', ''downloads''],
           trace = [MakeDirs ''downloads'', Fetch ''http://h/clip.mp3'' None,
                    Create ''downloads/clip.mp3'']\<rparr>)
   \<and> process_url example_lib readonly_env ''http://h/clip.mp3'' ''downloads'' True start
       = (Inr None,
          \<lparr>existing = [''downloads''],
           trace = [MakeDirs ''downloads'', Fetch ''http://h/clip.mp3'' None,
                    Lookup ''http://h/clip.mp3'']\<rparr>)"
  by code_simp

text \<open>
  Claim C4.  A run of \<^verbatim>\<open>process_url\<close> asks the archive at most once, and not at all when the
  fallback is not allowed; it sends at most two direct requests, one for the URL and one for
  the snapshot.  Without the fallback \<^verbatim>\<open>process_url\<close> is its steps 1 and 2; with it, a
  snapshot \<open>w\<close> found after steps 1 and 2 gave nothing is processed by
  \<^verbatim>\<open>process_url\<close> with the fallback switched off.  The function is total: the recursion
  ends because the flag is false in the recursive call.
\<close>

theorem process_url_single_fallback:
  "lookups (snd (process_url L E url output_dir try_wayback s))
     \<le> lookups s + (if try_wayback then 1 else 0)
   \<and> direct_fetches (snd (process_url L E url output_dir try_wayback s))
     \<le> direct_fetches s + (if try_wayback then 2 else 1)
   \<and> process_url L E url output_dir False s = direct_and_scan L E url output_dir s
   \<and> lookups (snd (direct_and_scan L E url output_dir s)) = lookups s
   \<and> (direct_and_scan L E url output_dir s = (Inr None, s2)
        \<and> get_wayback_url E url s2 = (JStr w, s3) \<and> w \<noteq> []
      \<longrightarrow> process_url L E url output_dir True s = process_url L E w output_dir False s3
        \<and> lookups (snd (process_url L E url output_dir True s)) = lookups s + 1)"
proof (intro conjI impI)
  show "process_url L E url output_dir False s = direct_and_scan L E url output_dir s"
    by (rule process_url_no_fallback)
  show l: "lookups (snd (direct_and_scan L E url output_dir s)) = lookups s"
  proof (cases "makedirs_if_missing E output_dir s")
    case (Inl e)
    then show ?thesis by (simp add: direct_and_scan_Inl)
  next
    case (Inr s0)
    then show ?thesis
      using direct_and_scan_Inr [OF Inr, of L url] makedirs_if_missing_Inr [OF Inr] by simp
  qed
  have both: "lookups (snd (process_url L E url output_dir try_wayback s))
        \<le> lookups s + (if try_wayback then 1 else 0)
      \<and> direct_fetches (snd (process_url L E url output_dir try_wayback s))
        \<le> direct_fetches s + (if try_wayback then 2 else 1)"
  proof (cases "makedirs_if_missing E output_dir s")
    case (Inl e)
    then show ?thesis by (simp add: process_url_Inl)
  next
    case (Inr s0)
    then show ?thesis
      using process_url_effect [OF Inr, of L url try_wayback] by blast
  qed
  show "lookups (snd (process_url L E url output_dir try_wayback s))
     \<le> lookups s + (if try_wayback then 1 else 0)"
    using both by blast
  show "direct_fetches (snd (process_url L E url output_dir try_wayback s))
     \<le> direct_fetches s + (if try_wayback then 2 else 1)"
    using both by blast
next
  assume a: "direct_and_scan L E url output_dir s = (Inr None, s2)
        \<and> get_wayback_url E url s2 = (JStr w, s3) \<and> w \<noteq> []"
  then show r: "process_url L E url output_dir True s = process_url L E w output_dir False s3"
    using process_url_recursion [of L E url output_dir s s2 w s3] by blast
  have l2: "lookups s2 = lookups s"
  proof (cases "makedirs_if_missing E output_dir s")
    case (Inl e)
    then show ?thesis using a by (simp add: direct_and_scan_Inl)
  next
    case (Inr s0)
    then show ?thesis
      using a direct_and_scan_Inr [OF Inr, of L url] makedirs_if_missing_Inr [OF Inr] by simp
  qed
  have l3: "lookups s3 = lookups s2 + 1"
    using a get_wayback_url_effect [of E url s2] by simp
  have "lookups (snd (direct_and_scan L E w output_dir s3)) = lookups s3"
  proof (cases "makedirs_if_missing E output_dir s3")
    case (Inl e)
    then show ?thesis by (simp add: direct_and_scan_Inl)
  next
    case (Inr s0)
    then show ?thesis
      using direct_and_scan_Inr [OF Inr, of L w] makedirs_if_missing_Inr [OF Inr] by simp
  qed
  then show "lookups (snd (process_url L E url output_dir True s)) = lookups s + 1"
    unfolding r using l2 l3 by (simp add: process_url_no_fallback)
qed

theorem process_url_single_fallback_witness:
  "direct_and_scan example_lib example_env ''http://h/dead'' ''downloads'' start
     = (Inr None, \<lparr>existing = [''downloads''],
                   trace = [MakeDirs ''downloads'', Fetch ''http://h/dead'' None]\<rparr>)
   \<and> get_wayback_url example_env ''http://h/dead''
        \<lparr>existing = [''downloads''],
         trace = [MakeDirs ''downloads'', Fetch ''http://h/dead'' None]\<rparr>
       = (JStr ''http://a/1/http://h/dead'',
          \<lparr>existing = [''downloads''],
           trace = [MakeDirs ''downloads'', Fetch ''http://h/dead'' None,
                    Lookup ''http://h/dead'']\<rparr>)
   \<and> snapshot_url_field (requests_get example_env 4 (api_url ''http://a/1/http://h/dead'') [])
       = Some (JStr ''http://a/2/http://h/dead'')
   \<and> process_url example_lib example_env ''http://h/dead'' ''downloads'' True start
       = (Inr None,
          \<lparr>existing = [''downloads''],
           trace = [MakeDirs ''downloads'', Fetch ''http://h/dead'' None,
                    Lookup ''http://h/dead'', Fetch ''http://a/1/http://h/dead'' None]\<rparr>)
   \<and> lookups (snd (process_url example_lib example_env ''http://h/dead'' ''downloads'' True
                       start)) = lookups start + 1"
proof -
  let ?s2 = "\<lparr>existing = [''downloads''],
              trace = [MakeDirs ''downloads'', Fetch ''http://h/dead'' None]\<rparr>"
  let ?s3 = "\<lparr>existing = [''downloads''],
              trace = [MakeDirs ''downloads'', Fetch ''http://h/dead'' None,
                       Lookup ''http://h/dead'']\<rparr>"
  have 1: "direct_and_scan example_lib example_env ''http://h/dead'' ''downloads'' start
     = (Inr None, ?s2)"
    by code_simp
  have 2: "get_wayback_url example_env ''http://h/dead'' ?s2
             = (JStr ''http://a/1/http://h/dead'', ?s3)"
    by code_simp
  have 3: "snapshot_url_field
             (requests_get example_env 4 (api_url ''http://a/1/http://h/dead'') [])
       = Some (JStr ''http://a/2/http://h/dead'')"
    by code_simp
  have 4: "process_url example_lib example_env ''http://h/dead'' ''downloads'' True start
       = (Inr None,
          \<lparr>existing = [''downloads''],
           trace = [MakeDirs ''downloads'', Fetch ''http://h/dead'' None,
                    Lookup ''http://h/dead'', Fetch ''http://a/1/http://h/dead'' None]\<rparr>)"
    by code_simp
  have 5: "''http://a/1/http://h/dead'' \<noteq> []" by simp
  have "lookups (snd (process_url example_lib example_env ''http://h/dead'' ''downloads'' True
                       start)) = lookups start + 1"
    using process_url_single_fallback [of example_lib example_env "''http://h/dead''"
        "''downloads''" True start ?s2 "''http://a/1/http://h/dead''" ?s3] 1 2 5
    by blast
  with 1 2 3 4 show ?thesis by blast
qed




end
